theory Spec2Isabelle
  imports Complex_Main "HOL-Library.Word" "HOL-Library.Log_Nat"
begin

unbundle bit_operations_syntax

section \<open>Machine types\<close>

text \<open>
  \<open>Uint8\<close> and \<open>Sint32\<close> are the SDL integer types of the source. A \<open>Sint32\<close>
  is a 32-bit word read as two's complement (\<open>sint\<close>); comparisons of the source
  are the signed comparisons \<open><s\<close> and \<open>\<le>s\<close>.
\<close>

type_synonym Uint8 = "8 word"
type_synonym Sint32 = "32 word"

section \<open>Color32\<close>

text \<open>
  The union \<open>Color32\<close> of gfx.h, seen through its \<open>channels\<close> member. The field
  order is that of \<open>BGRA32\<close>, the layout chosen on little-endian Linux and Windows.
\<close>

record Color32 =
  blue :: Uint8
  green :: Uint8
  red :: Uint8
  alpha :: Uint8

text \<open>\<open>Color32(pR, pG, pB, pA)\<close>; the header defaults \<open>pA\<close> to \<open>UCHAR_MAX\<close>.\<close>

definition Color32_rgba :: "Uint8 \<Rightarrow> Uint8 \<Rightarrow> Uint8 \<Rightarrow> Uint8 \<Rightarrow> Color32" where
  "Color32_rgba pR pG pB pA = \<lparr>blue = pB, green = pG, red = pR, alpha = pA\<rparr>"

definition UCHAR_MAX :: Uint8 where
  "UCHAR_MAX = 255"

definition Color32_rgb :: "Uint8 \<Rightarrow> Uint8 \<Rightarrow> Uint8 \<Rightarrow> Color32" where
  "Color32_rgb pR pG pB = Color32_rgba pR pG pB UCHAR_MAX"

text \<open>\<open>Color32()\<close> sets \<open>value\<close> to 0, that is every channel to 0.\<close>

definition Color32_zero :: Color32 where
  "Color32_zero = \<lparr>blue = 0, green = 0, red = 0, alpha = 0\<rparr>"

text \<open>\<open>operator==(Color32, Color32)\<close>: "does not test alpha".\<close>

definition color_eq :: "Color32 \<Rightarrow> Color32 \<Rightarrow> bool" where
  "color_eq pLeft pRight \<longleftrightarrow>
     red pLeft = red pRight \<and> green pLeft = green pRight \<and> blue pLeft = blue pRight"

definition color_neq :: "Color32 \<Rightarrow> Color32 \<Rightarrow> bool" where
  "color_neq pLeft pRight \<longleftrightarrow> \<not> color_eq pLeft pRight"

section \<open>Blenders\<close>

text \<open>
  A blender is any callable taking the destination and the source colour (the
  template parameter \<open>Blender_t\<close>). The result is \<open>None\<close> where the C++ evaluation
  has no defined value.
\<close>

type_synonym Blender = "Color32 \<Rightarrow> Color32 \<Rightarrow> Color32 option"

definition Assign :: Blender where
  "Assign pDst pSrc = Some pSrc"

definition ColorKey :: "Color32 \<Rightarrow> Blender" where
  "ColorKey key pDst pSrc = Some (if color_eq pSrc key then pDst else pSrc)"

section \<open>Single-precision floating point\<close>

text \<open>
  A \<open>float\<close> of the source is an IEEE 754 binary32 value: a rational that the format
  represents, an infinity or a NaN. Every operation computes the exact result and
  rounds it to the nearest representable value, ties to even (\<open>rnd\<close>); results of
  magnitude \<open>2 ^ 128\<close> or more become infinities. Zero carries no sign: every divisor
  in the source is a converted integer, so the sign of a zero is never observed.
\<close>

datatype float32 = Fin rat | PInf | NInf | NaN

definition pow2 :: "int \<Rightarrow> rat" where
  "pow2 e = (if 0 \<le> e then 2 ^ nat e else 1 / 2 ^ nat (- e))"

text \<open>The binary exponent of a positive rational: \<open>pow2 (ilog2 x) \<le> x < pow2 (ilog2 x + 1)\<close>.\<close>

definition ilog2 :: "rat \<Rightarrow> int" where
  "ilog2 x = (if 1 \<le> x then bitlen \<lfloor>x\<rfloor> - 1 else - bitlen (\<lceil>1 / x\<rceil> - 1))"

text \<open>Rounding to the nearest integer, ties to even.\<close>

definition rne :: "rat \<Rightarrow> int" where
  "rne x = (let f = \<lfloor>x\<rfloor>; r = x - of_int f
            in if r < 1 / 2 then f else if 1 / 2 < r then f + 1
               else if even f then f else f + 1)"

text \<open>
  The spacing of binary32 values around \<open>x\<close>: 24 significant bits, and the fixed
  spacing \<open>pow2 (- 149)\<close> of the subnormal range below \<open>pow2 (- 126)\<close>.
\<close>

definition ulp :: "rat \<Rightarrow> rat" where
  "ulp x = pow2 (max (ilog2 \<bar>x\<bar>) (- 126) - 23)"

definition rnd :: "rat \<Rightarrow> rat" where
  "rnd x = (if x = 0 then 0 else of_int (rne (x / ulp x)) * ulp x)"

definition round32 :: "rat \<Rightarrow> float32" where
  "round32 x = (let y = rnd x
                in if 2 ^ 128 \<le> y then PInf else if y \<le> - (2 ^ 128) then NInf else Fin y)"

fun fneg :: "float32 \<Rightarrow> float32" where
  "fneg (Fin a) = Fin (- a)"
| "fneg PInf = NInf"
| "fneg NInf = PInf"
| "fneg NaN = NaN"

fun fadd :: "float32 \<Rightarrow> float32 \<Rightarrow> float32" where
  "fadd (Fin a) (Fin b) = round32 (a + b)"
| "fadd NaN _ = NaN"
| "fadd _ NaN = NaN"
| "fadd PInf NInf = NaN"
| "fadd NInf PInf = NaN"
| "fadd PInf _ = PInf"
| "fadd NInf _ = NInf"
| "fadd _ PInf = PInf"
| "fadd _ NInf = NInf"

definition fsub :: "float32 \<Rightarrow> float32 \<Rightarrow> float32" where
  "fsub a b = fadd a (fneg b)"

fun fmul :: "float32 \<Rightarrow> float32 \<Rightarrow> float32" where
  "fmul (Fin a) (Fin b) = round32 (a * b)"
| "fmul NaN _ = NaN"
| "fmul _ NaN = NaN"
| "fmul PInf (Fin b) = (if b = 0 then NaN else if 0 < b then PInf else NInf)"
| "fmul NInf (Fin b) = (if b = 0 then NaN else if 0 < b then NInf else PInf)"
| "fmul (Fin a) PInf = (if a = 0 then NaN else if 0 < a then PInf else NInf)"
| "fmul (Fin a) NInf = (if a = 0 then NaN else if 0 < a then NInf else PInf)"
| "fmul PInf PInf = PInf"
| "fmul PInf NInf = NInf"
| "fmul NInf PInf = NInf"
| "fmul NInf NInf = PInf"

fun fdiv :: "float32 \<Rightarrow> float32 \<Rightarrow> float32" where
  "fdiv (Fin a) (Fin b) =
     (if b = 0 then (if a = 0 then NaN else if 0 < a then PInf else NInf)
      else round32 (a / b))"
| "fdiv NaN _ = NaN"
| "fdiv _ NaN = NaN"
| "fdiv (Fin a) _ = Fin 0"
| "fdiv PInf (Fin b) = (if 0 \<le> b then PInf else NInf)"
| "fdiv NInf (Fin b) = (if 0 \<le> b then NInf else PInf)"
| "fdiv _ _ = NaN"

text \<open>Conversions. An integer of at most 24 bits converts exactly.\<close>

definition float_of_Sint32 :: "Sint32 \<Rightarrow> float32" where
  "float_of_Sint32 n = round32 (of_int (sint n))"

definition float_of_Uint8 :: "Uint8 \<Rightarrow> float32" where
  "float_of_Uint8 c = Fin (of_nat (unat c))"

definition trunc_zero :: "rat \<Rightarrow> int" where
  "trunc_zero x = (if 0 \<le> x then \<lfloor>x\<rfloor> else \<lceil>x\<rceil>)"

text \<open>
  A cast from \<open>float\<close> to an integer type discards the fraction; where the truncated
  value does not fit the target type, or the operand is an infinity or a NaN, the cast
  has no defined result (\<open>None\<close>).
\<close>

fun Sint32_of_float :: "float32 \<Rightarrow> Sint32 option" where
  "Sint32_of_float (Fin x) =
     (let t = trunc_zero x
      in if - (2 ^ 31) \<le> t \<and> t < 2 ^ 31 then Some (word_of_int t) else None)"
| "Sint32_of_float _ = None"

fun Uint8_of_float :: "float32 \<Rightarrow> Uint8 option" where
  "Uint8_of_float (Fin x) =
     (let t = trunc_zero x
      in if 0 \<le> t \<and> t \<le> 255 then Some (word_of_int t) else None)"
| "Uint8_of_float _ = None"

section \<open>Grayscale\<close>

text \<open>
  \<open>Grayscale::operator()\<close>. The local constant \<open>Gray\<close> is the cast to \<open>Uint8\<close> of
  \<open>(float)red * 0.3f + (float)green * 0.59f + (float)blue * 0.11f\<close>, each literal being
  the binary32 value nearest to the decimal.
\<close>

definition Gray :: "Color32 \<Rightarrow> Uint8 option" where
  "Gray pSrc =
     Uint8_of_float
       (fadd (fadd (fmul (float_of_Uint8 (red pSrc)) (round32 (3 / 10)))
                   (fmul (float_of_Uint8 (green pSrc)) (round32 (59 / 100))))
             (fmul (float_of_Uint8 (blue pSrc)) (round32 (11 / 100))))"

definition Grayscale :: Blender where
  "Grayscale pDst pSrc =
     (case Gray pSrc of None \<Rightarrow> None | Some g \<Rightarrow> Some (Color32_rgb g g g))"

definition FillGrayscale :: Blender where
  "FillGrayscale pDst pSrc = Grayscale pSrc pDst"

section \<open>Colour arithmetic tables\<close>

text \<open>
  The three static \<open>Uint8\<close> arrays of 256 by 256 entries and the \<open>float\<close> array
  \<open>u8chan_to_fchan\<close> of gfx.cpp. Static storage starts out zeroed.
\<close>

type_synonym row = "nat \<Rightarrow> Uint8"
type_synonym table = "nat \<Rightarrow> row"

record Tables =
  tableAdd :: table
  tableSub :: table
  tableMul :: table
  u8chan_to_fchan :: "nat \<Rightarrow> float32"

definition static_Tables :: Tables where
  "static_Tables =
     \<lparr>tableAdd = (\<lambda>i j. 0), tableSub = (\<lambda>i j. 0), tableMul = (\<lambda>i j. 0),
      u8chan_to_fchan = (\<lambda>i. Fin 0)\<rparr>"

text \<open>
  The loops of \<open>GfxInit\<close>. The inner loop of the addition table,
  \<open>for (n = i; n <= UCHAR_MAX; ++j, ++n) tableAdd[i][j] = (Uint8)n\<close>, returns the row and
  the final \<open>j\<close>, from which the second inner loop stores \<open>UCHAR_MAX\<close>.
\<close>

function add_count :: "row \<Rightarrow> nat \<Rightarrow> nat \<Rightarrow> row \<times> nat" where
  "add_count r j n = (if n \<le> 255 then add_count (r(j := of_nat n)) (j + 1) (n + 1) else (r, j))"
  by pat_completeness auto
termination
  by (relation "measure (\<lambda>(r, j, n). 256 - n)") auto

function fill_from :: "Uint8 \<Rightarrow> row \<Rightarrow> nat \<Rightarrow> row" where
  "fill_from c r j = (if j \<le> 255 then fill_from c (r(j := c)) (j + 1) else r)"
  by pat_completeness auto
termination
  by (relation "measure (\<lambda>(c, r, j). 256 - j)") auto

function add_rows :: "table \<Rightarrow> nat \<Rightarrow> table" where
  "add_rows t i =
     (if i \<le> 255
      then add_rows (t(i := (case add_count (t i) 0 i of (r, j) \<Rightarrow> fill_from 255 r j))) (i + 1)
      else t)"
  by pat_completeness auto
termination
  by (relation "measure (\<lambda>(t, i). 256 - i)") auto

text \<open>
  The subtraction table: \<open>for (n = i; n >= 0; ++j, --n) tableSub[i][j] = (Uint8)n\<close>,
  then zeros. The counter \<open>n\<close> ends at -1.
\<close>

function sub_count :: "row \<Rightarrow> nat \<Rightarrow> int \<Rightarrow> row \<times> nat" where
  "sub_count r j n = (if 0 \<le> n then sub_count (r(j := of_int n)) (j + 1) (n - 1) else (r, j))"
  by pat_completeness auto
termination
  by (relation "measure (\<lambda>(r, j, n). nat (n + 1))") auto

function sub_rows :: "table \<Rightarrow> nat \<Rightarrow> table" where
  "sub_rows t i =
     (if i \<le> 255
      then sub_rows (t(i := (case sub_count (t i) 0 (int i) of (r, j) \<Rightarrow> fill_from 0 r j))) (i + 1)
      else t)"
  by pat_completeness auto
termination
  by (relation "measure (\<lambda>(t, i). 256 - i)") auto

text \<open>
  The multiplication table: \<open>tableMul[(Sint32)i][(Sint32)j] = (Uint8)(i * (j / fBYTE_MAX))\<close>
  with \<open>float\<close> counters \<open>i\<close> and \<open>j\<close> running over 0, 1, ..., 255, all of which binary32
  represents; the counters are kept as naturals and converted where they are used. The
  construction has no defined result if a cast to \<open>Uint8\<close> has none.
\<close>

function mul_cols :: "row \<Rightarrow> nat \<Rightarrow> nat \<Rightarrow> row option" where
  "mul_cols r i j =
     (if j \<le> 255
      then (case Uint8_of_float (fmul (Fin (of_nat i)) (fdiv (Fin (of_nat j)) (Fin 255))) of
              None \<Rightarrow> None
            | Some c \<Rightarrow> mul_cols (r(j := c)) i (j + 1))
      else Some r)"
  by pat_completeness auto
termination
  by (relation "measure (\<lambda>(r, i, j). 256 - j)") auto

function mul_rows :: "table \<Rightarrow> nat \<Rightarrow> table option" where
  "mul_rows t i =
     (if i \<le> 255
      then (case mul_cols (t i) i 0 of None \<Rightarrow> None | Some r \<Rightarrow> mul_rows (t(i := r)) (i + 1))
      else Some t)"
  by pat_completeness auto
termination
  by (relation "measure (\<lambda>(t, i). 256 - i)") auto

text \<open>\<open>u8chan_to_fchan[i] = fBYTE_MAX / (float)i\<close> for the \<open>Sint32\<close> counter \<open>i\<close>.\<close>

function fchan_loop :: "(nat \<Rightarrow> float32) \<Rightarrow> nat \<Rightarrow> (nat \<Rightarrow> float32)" where
  "fchan_loop f i =
     (if i < 255 + 1
      then fchan_loop (f(i := fdiv (Fin 255) (float_of_Sint32 (of_nat i)))) (i + 1)
      else f)"
  by pat_completeness auto
termination
  by (relation "measure (\<lambda>(f, i). 256 - i)") auto

text \<open>The table construction of \<open>GfxInit\<close>, in the order of the source.\<close>

definition GfxInit_tables :: "Tables \<Rightarrow> Tables option" where
  "GfxInit_tables T =
     (let T = T\<lparr>tableAdd := add_rows (tableAdd T) 0\<rparr>;
          T = T\<lparr>tableSub := sub_rows (tableSub T) 0\<rparr>
      in case mul_rows (tableMul T) 0 of
           None \<Rightarrow> None
         | Some m \<Rightarrow>
             Some (T\<lparr>tableMul := m, u8chan_to_fchan := fchan_loop (u8chan_to_fchan T) 0\<rparr>))"

text \<open>
  The compound assignment operators of \<open>Color32\<close> look each channel pair up in the
  tables; \<open>operator+\<close>, \<open>operator-\<close> and \<open>operator*\<close> apply them to a copy of the left
  operand.
\<close>

definition color_table_op :: "table \<Rightarrow> Color32 \<Rightarrow> Color32 \<Rightarrow> Color32" where
  "color_table_op t pLeft pRight =
     \<lparr>blue = t (unat (blue pLeft)) (unat (blue pRight)),
      green = t (unat (green pLeft)) (unat (green pRight)),
      red = t (unat (red pLeft)) (unat (red pRight)),
      alpha = t (unat (alpha pLeft)) (unat (alpha pRight))\<rparr>"

definition color_add :: "Tables \<Rightarrow> Color32 \<Rightarrow> Color32 \<Rightarrow> Color32" where
  "color_add T pLeft pRight = color_table_op (tableAdd T) pLeft pRight"

definition color_sub :: "Tables \<Rightarrow> Color32 \<Rightarrow> Color32 \<Rightarrow> Color32" where
  "color_sub T pLeft pRight = color_table_op (tableSub T) pLeft pRight"

definition color_mul :: "Tables \<Rightarrow> Color32 \<Rightarrow> Color32 \<Rightarrow> Color32" where
  "color_mul T pLeft pRight = color_table_op (tableMul T) pLeft pRight"

section \<open>Image\<close>

text \<open>
  An \<open>Image\<close> owns the array \<open>pixels\<close> (\<open>None\<close> is the null pointer) and records
  its extent. \<open>SDL_SetError\<close> calls are returned as the message they set; the messages
  of \<open>Create\<close>, \<open>Load\<close> and \<open>Save\<close> are prefixed by the address of the object in
  the source, \<open>Blit_bad_source_destination\<close> is "Blit: Bad source/destination".
\<close>

record Image =
  pixels :: "Color32 list option"
  width :: Sint32
  height :: Sint32

datatype sdl_msg =
  Invalid_size | Alloc_exception | Could_not_open_file | Format_not_recognized
  | Blit_bad_source_destination

definition MaxDimension :: Sint32 where
  "MaxDimension = 65535"

definition IsGood :: "Image \<Rightarrow> bool" where
  "IsGood img \<longleftrightarrow> pixels img \<noteq> None"

definition IsBad :: "Image \<Rightarrow> bool" where
  "IsBad img \<longleftrightarrow> pixels img = None"

definition Free :: "Image \<Rightarrow> Image" where
  "Free img = img\<lparr>pixels := None, width := 0, height := 0\<rparr>"

text \<open>
  \<open>Image::Create\<close>. \<open>heap n\<close> tells whether the allocator can provide an array of \<open>n\<close>
  colours; \<open>new Color32[pWidth * pHeight]\<close> multiplies in \<open>Sint32\<close>, throws on a negative
  length as on exhaustion, and default-constructs every element. The result is
  \<open>IsGood()\<close>, the image, and the message set.
\<close>

definition Create :: "(nat \<Rightarrow> bool) \<Rightarrow> Image \<Rightarrow> Sint32 \<Rightarrow> Sint32 \<Rightarrow> bool \<times> Image \<times> sdl_msg option" where
  "Create heap img pWidth pHeight =
     (let img = Free img
      in if 0 <s pWidth \<and> pWidth \<le>s MaxDimension \<and> 0 <s pHeight \<and> pHeight \<le>s MaxDimension
         then (let n = sint (pWidth * pHeight)
               in if 0 \<le> n \<and> heap (nat n)
                  then (let img = img\<lparr>pixels := Some (replicate (nat n) Color32_zero),
                                        width := pWidth, height := pHeight\<rparr>
                        in (IsGood img, img, None))
                  else (let img = Free img in (IsGood img, img, Some Alloc_exception)))
         else (IsGood img, img, Some Invalid_size))"

text \<open>
  \<open>pImage[pY][pX]\<close>: \<open>operator[]\<close> multiplies in \<open>Sint32\<close>, the pointer arithmetic is
  exact, and an access outside the array has no defined result.
\<close>

definition pixel_at :: "Image \<Rightarrow> Sint32 \<Rightarrow> Sint32 \<Rightarrow> Color32 option" where
  "pixel_at img pY pX =
     (case pixels img of
        None \<Rightarrow> None
      | Some buf \<Rightarrow>
          (let i = sint (width img * pY) + sint pX
           in if 0 \<le> i \<and> i < int (length buf) then Some (buf ! nat i) else None))"

text \<open>The invariant that \<open>Create\<close>, \<open>Copy\<close> and \<open>Load\<close> establish.\<close>

definition wf_image :: "Image \<Rightarrow> bool" where
  "wf_image img \<longleftrightarrow>
     (case pixels img of
        None \<Rightarrow> width img = 0 \<and> height img = 0
      | Some buf \<Rightarrow>
          0 <s width img \<and> width img \<le>s MaxDimension \<and>
          0 <s height img \<and> height img \<le>s MaxDimension \<and>
          int (length buf) = sint (width img * height img))"

section \<open>Files\<close>

text \<open>
  A file is its sequence of bytes. \<open>files\<close> maps a path to the file there; \<open>readonly\<close>
  holds of the paths an \<open>ofstream\<close> cannot open. An open \<open>ifstream\<close> has a read
  position and a fail bit; once the fail bit is set, \<open>seekg\<close> and \<open>read\<close> do nothing,
  since the source never calls \<open>clear\<close>. A \<open>read\<close> that meets the end of the file
  delivers the bytes that are there and sets the fail bit.
\<close>

record filesystem =
  files :: "string \<Rightarrow> Uint8 list option"
  readonly :: "string \<Rightarrow> bool"

record ifstream =
  content :: "Uint8 list"
  gpos :: nat
  failbit :: bool

definition ifstream_open :: "filesystem \<Rightarrow> string \<Rightarrow> ifstream option" where
  "ifstream_open fs pFile =
     (case files fs pFile of
        None \<Rightarrow> None
      | Some c \<Rightarrow> Some \<lparr>content = c, gpos = 0, failbit = False\<rparr>)"

definition stream_read :: "ifstream \<Rightarrow> nat \<Rightarrow> Uint8 list \<times> ifstream" where
  "stream_read fin n =
     (if failbit fin then ([], fin)
      else (let bs = take n (drop (gpos fin) (content fin))
            in (bs, fin\<lparr>gpos := gpos fin + length bs, failbit := length bs < n\<rparr>)))"

definition seekg :: "ifstream \<Rightarrow> int \<Rightarrow> ifstream" where
  "seekg fin off =
     (if failbit fin then fin
      else if off < 0 then fin\<lparr>failbit := True\<rparr>
      else fin\<lparr>gpos := nat off\<rparr>)"

text \<open>
  Objects are read and written through their bytes, least significant byte first; a
  colour is the four bytes of \<open>BGRA32\<close>. \<open>store bs obj\<close> is the object \<open>obj\<close> after the
  bytes \<open>bs\<close> have been read into its beginning.
\<close>

definition store :: "Uint8 list \<Rightarrow> Uint8 list \<Rightarrow> Uint8 list" where
  "store bs obj = bs @ drop (length bs) obj"

definition bytes_of_Sint32 :: "Sint32 \<Rightarrow> Uint8 list" where
  "bytes_of_Sint32 n = [ucast n, ucast (drop_bit 8 n), ucast (drop_bit 16 n), ucast (drop_bit 24 n)]"

fun Sint32_of_bytes :: "Uint8 list \<Rightarrow> Sint32" where
  "Sint32_of_bytes [] = 0"
| "Sint32_of_bytes (b # bs) = ucast b OR push_bit 8 (Sint32_of_bytes bs)"

definition bytes_of_Color32 :: "Color32 \<Rightarrow> Uint8 list" where
  "bytes_of_Color32 c = [blue c, green c, red c, alpha c]"

definition bytes_of_pixels :: "Color32 list \<Rightarrow> Uint8 list" where
  "bytes_of_pixels buf = concat (map bytes_of_Color32 buf)"

fun pixels_of_bytes :: "Uint8 list \<Rightarrow> Color32 list" where
  "pixels_of_bytes (b # g # r # a # bs) =
     \<lparr>blue = b, green = g, red = r, alpha = a\<rparr> # pixels_of_bytes bs"
| "pixels_of_bytes _ = []"

text \<open>\<open>fin.read((char*)(&x), sizeof(x))\<close> for a \<open>Sint32\<close> variable holding \<open>old\<close>.\<close>

definition read_Sint32 :: "ifstream \<Rightarrow> Sint32 \<Rightarrow> Sint32 \<times> ifstream" where
  "read_Sint32 fin old =
     (case stream_read fin 4 of
        (bs, fin') \<Rightarrow> (Sint32_of_bytes (store bs (bytes_of_Sint32 old)), fin'))"

section \<open>Save and Load\<close>

text \<open>
  \<open>Image::Save\<close>: the type size 4, the width, the height, then \<open>width * height * 4\<close>
  bytes of the pixel array. The stream has no exception mask, so the handler of the
  source is never entered; bytes written to an open \<open>ofstream\<close> reach the file. Writing
  more bytes than the array holds has no defined result.
\<close>

definition Save :: "filesystem \<Rightarrow> Image \<Rightarrow> string \<Rightarrow> (bool \<times> filesystem \<times> sdl_msg option) option" where
  "Save fs img pFile =
     (if width img * height img = 0 \<or> pixels img = None then Some (False, fs, None)
      else if readonly fs pFile then Some (False, fs, Some Could_not_open_file)
      else (case pixels img of
              None \<Rightarrow> None
            | Some buf \<Rightarrow>
                (let count = 4 * sint (width img * height img);
                     data = bytes_of_pixels buf
                 in if count < 0 \<or> int (length data) < count then None
                    else Some (True,
                               fs\<lparr>files := (files fs)(pFile \<mapsto>
                                     bytes_of_Sint32 4 @ bytes_of_Sint32 (width img)
                                     @ bytes_of_Sint32 (height img) @ take (nat count) data)\<rparr>,
                               None))))"

text \<open>
  \<open>Image::Load\<close> reads the width and the height straight into the members, then calls
  \<open>Create\<close> with them and reads the pixel bytes into the new array.
\<close>

definition Load :: "(nat \<Rightarrow> bool) \<Rightarrow> filesystem \<Rightarrow> Image \<Rightarrow> string \<Rightarrow> bool \<times> Image \<times> sdl_msg option" where
  "Load heap fs img pFile =
     (case ifstream_open fs pFile of
        None \<Rightarrow> (False, img, Some Could_not_open_file)
      | Some fin \<Rightarrow>
          (case read_Sint32 fin 0 of
             (typeSize, fin) \<Rightarrow>
               if typeSize = 4
               then (case read_Sint32 fin (width img) of
                       (w, fin) \<Rightarrow>
                         (case read_Sint32 fin (height img) of
                            (h, fin) \<Rightarrow>
                              (case Create heap (img\<lparr>width := w, height := h\<rparr>) w h of
                                 (created, img, msg) \<Rightarrow>
                                   if created
                                   then (case pixels img of
                                           None \<Rightarrow> (IsGood img, img, msg)
                                         | Some buf \<Rightarrow>
                                             (case stream_read fin
                                                     (nat (4 * sint (width img * height img))) of
                                                (bs, fin) \<Rightarrow>
                                                  (let img = img\<lparr>pixels :=
                                                         Some (pixels_of_bytes
                                                                 (store bs (bytes_of_pixels buf)))\<rparr>
                                                   in (IsGood img, img, msg))))
                                   else (IsGood img, img, msg))))
               else (let img = Free img in (IsGood img, img, Some Format_not_recognized))))"

section \<open>Image::Stream\<close>

record Stream =
  s_width :: Sint32
  s_height :: Sint32
  s_file :: string
  dataStart :: Sint32

definition Stream_Free :: "Stream \<Rightarrow> Stream" where
  "Stream_Free s = s\<lparr>s_width := 0, s_height := 0, s_file := [], dataStart := 0\<rparr>"

text \<open>
  \<open>Image::Stream::Load\<close> reads \<open>width\<close> and \<open>height\<close> from the start of the file and
  sets \<open>dataStart\<close> to \<open>sizeof(width) + sizeof(height)\<close>.
\<close>

definition Stream_Load :: "filesystem \<Rightarrow> Stream \<Rightarrow> string \<Rightarrow> bool \<times> Stream" where
  "Stream_Load fs s pFile =
     (case ifstream_open fs pFile of
        None \<Rightarrow> (False, Stream_Free s)
      | Some fin \<Rightarrow>
          (case read_Sint32 fin (s_width s) of
             (w, fin) \<Rightarrow>
               (case read_Sint32 fin (s_height s) of
                  (h, fin) \<Rightarrow>
                    (True, s\<lparr>s_width := w, s_height := h, s_file := pFile, dataStart := 4 + 4\<rparr>))))"

section \<open>Samplers\<close>

text \<open>
  A sampler is any callable taking the image and the texture coordinates (the template
  parameter \<open>Sampler_t\<close>); \<open>None\<close> is a call with no defined result.
  \<open>Nearest::operator()\<close> reads \<open>pImage[(Sint32)((height - 1) * pV)][(Sint32)((width - 1) * pU)]\<close>.
\<close>

type_synonym Sampler = "Image \<Rightarrow> float32 \<Rightarrow> float32 \<Rightarrow> Color32 option"

definition Nearest :: Sampler where
  "Nearest pImage pU pV =
     (case Sint32_of_float (fmul (float_of_Sint32 (height pImage - 1)) pV) of
        None \<Rightarrow> None
      | Some y \<Rightarrow>
          (case Sint32_of_float (fmul (float_of_Sint32 (width pImage - 1)) pU) of
             None \<Rightarrow> None
           | Some x \<Rightarrow> pixel_at pImage y x))"

section \<open>Blit from an image\<close>

text \<open>
  The inner loop \<open>for (x = 0; x < MAXX; ++x)\<close> of \<open>Image::Blit\<close>, by the number of
  iterations left. \<open>dpix\<close> is the offset of the current destination row in the pixel
  array. Source and destination are distinct objects.
\<close>

fun scan_columns ::
  "Blender \<Rightarrow> Sampler \<Rightarrow> Image \<Rightarrow> float32 \<Rightarrow> float32 \<Rightarrow> Sint32 \<Rightarrow> int \<Rightarrow> nat \<Rightarrow> Sint32 \<Rightarrow> float32
     \<Rightarrow> Color32 list \<Rightarrow> Color32 list option" where
  "scan_columns pBlend pSample pSrc v du pDx1 dpix 0 x u buf = Some buf"
| "scan_columns pBlend pSample pSrc v du pDx1 dpix (Suc n) x u buf =
     (let i = dpix + sint (x + pDx1)
      in if 0 \<le> i \<and> i < int (length buf)
         then (case pSample pSrc u v of
                 None \<Rightarrow> None
               | Some s \<Rightarrow>
                   (case pBlend (buf ! nat i) s of
                      None \<Rightarrow> None
                    | Some c \<Rightarrow>
                        scan_columns pBlend pSample pSrc v du pDx1 dpix n (x + 1) (fadd u du)
                          (buf[nat i := c])))
         else None)"

text \<open>The outer loop \<open>for (y = 0; y < MAXY; ++y, dpix += DST_WIDTH)\<close>.\<close>

fun scan_rows ::
  "Blender \<Rightarrow> Sampler \<Rightarrow> Image \<Rightarrow> float32 \<Rightarrow> float32 \<Rightarrow> Sint32 \<Rightarrow> nat \<Rightarrow> int \<Rightarrow> float32
     \<Rightarrow> nat \<Rightarrow> float32 \<Rightarrow> int \<Rightarrow> Color32 list \<Rightarrow> Color32 list option" where
  "scan_rows pBlend pSample pSrc du dv pDx1 maxx dst_width u1 0 v dpix buf = Some buf"
| "scan_rows pBlend pSample pSrc du dv pDx1 maxx dst_width u1 (Suc m) v dpix buf =
     (case scan_columns pBlend pSample pSrc v du pDx1 dpix maxx 0 u1 buf of
        None \<Rightarrow> None
      | Some buf' \<Rightarrow>
          scan_rows pBlend pSample pSrc du dv pDx1 maxx dst_width u1 m (fadd v dv)
            (dpix + dst_width) buf')"

text \<open>
  "enable a negative writable area on pDst (flips blit direction)" and "make read
  offset for pSrc + clip against min borders": the same statements for the x axis
  (\<open>pDx1\<close>, \<open>pDx2\<close>, \<open>u1\<close>, \<open>u2\<close>, \<open>du\<close>) and the y axis. The result is the new start,
  the new end and the new first texture coordinate.
\<close>

definition flip_clip :: "Sint32 \<Rightarrow> Sint32 \<Rightarrow> float32 \<Rightarrow> float32 \<Rightarrow> float32 \<Rightarrow> Sint32 \<times> Sint32 \<times> float32" where
  "flip_clip pD1 pD2 c1 c2 dc =
     (if pD2 <s pD1
      then (if pD2 <s 0 then (0, pD1, fsub c2 (fmul dc (float_of_Sint32 pD2)))
            else (pD2, pD1, c2))
      else if pD1 <s 0 then (0, pD2, fadd c1 (fmul dc (float_of_Sint32 (- pD1))))
      else (pD1, pD2, c1))"

text \<open>
  \<open>Image::Blit\<close> with an image source. The result is the destination image and the
  message set, or \<open>None\<close> where the call has no defined result.
\<close>

definition Blit ::
  "Image \<Rightarrow> Sint32 \<Rightarrow> Sint32 \<Rightarrow> Sint32 \<Rightarrow> Sint32 \<Rightarrow> Image \<Rightarrow> Blender \<Rightarrow> Sampler
     \<Rightarrow> Sint32 \<Rightarrow> Sint32 \<Rightarrow> Sint32 \<Rightarrow> Sint32 \<Rightarrow> (Image \<times> sdl_msg option) option" where
  "Blit pDst pDx1 pDy1 pDx2 pDy2 pSrc pBlend pSample pSx1 pSy1 pSx2 pSy2 =
     (if IsBad pSrc \<or> IsBad pDst then Some (pDst, Some Blit_bad_source_destination)
      else
        (let pSx1 = (if pSx1 <s 0 then 0 else pSx1);
             pSy1 = (if pSy1 <s 0 then 0 else pSy1);
             pSx2 = (if width pSrc <s pSx2 then width pSrc else pSx2);
             pSy2 = (if height pSrc <s pSy2 then height pSrc else pSy2);
             u1 = fdiv (float_of_Sint32 pSx1) (float_of_Sint32 (width pSrc - 1));
             v1 = fdiv (float_of_Sint32 pSy1) (float_of_Sint32 (height pSrc - 1));
             u2 = fdiv (float_of_Sint32 pSx2) (float_of_Sint32 (width pSrc - 1));
             v2 = fdiv (float_of_Sint32 pSy2) (float_of_Sint32 (height pSrc - 1));
             du = fdiv (fsub u2 u1) (float_of_Sint32 (pDx2 - pDx1));
             dv = fdiv (fsub v2 v1) (float_of_Sint32 (pDy2 - pDy1))
         in case flip_clip pDx1 pDx2 u1 u2 du of
              (pDx1, pDx2, u1) \<Rightarrow>
                (case flip_clip pDy1 pDy2 v1 v2 dv of
                   (pDy1, pDy2, v1) \<Rightarrow>
                     (let pDx2 = (if width pDst <s pDx2 then width pDst else pDx2);
                          pDy2 = (if height pDst <s pDy2 then height pDst else pDy2);
                          MAXY = pDy2 - pDy1;
                          MAXX = pDx2 - pDx1
                      in if MAXX <s 0 \<or> MAXY <s 0 then Some (pDst, None)
                         else (case pixels pDst of
                                 None \<Rightarrow> None
                               | Some buf \<Rightarrow>
                                   (case scan_rows pBlend pSample pSrc du dv pDx1
                                           (nat (sint MAXX)) (sint (width pDst)) u1
                                           (nat (sint MAXY)) v1 (sint (width pDst * pDy1)) buf of
                                      None \<Rightarrow> None
                                    | Some buf' \<Rightarrow> Some (pDst\<lparr>pixels := Some buf'\<rparr>, None)))))))"

text \<open>The overload without blender and sampler uses \<open>Assign\<close> and \<open>Nearest\<close>.\<close>

definition Blit_default ::
  "Image \<Rightarrow> Sint32 \<Rightarrow> Sint32 \<Rightarrow> Sint32 \<Rightarrow> Sint32 \<Rightarrow> Image
     \<Rightarrow> Sint32 \<Rightarrow> Sint32 \<Rightarrow> Sint32 \<Rightarrow> Sint32 \<Rightarrow> (Image \<times> sdl_msg option) option" where
  "Blit_default pDst pDx1 pDy1 pDx2 pDy2 pSrc pSx1 pSy1 pSx2 pSy2 =
     Blit pDst pDx1 pDy1 pDx2 pDy2 pSrc Assign Nearest pSx1 pSy1 pSx2 pSy2"

section \<open>Blit from a stream\<close>

text \<open>
  The constants of the streamed \<open>Image::Blit\<close> that its loops use (\<open>SX\<close>, \<open>SY\<close>,
  \<open>SY1\<close> and \<open>DX1\<close> are \<open>sx\<close>, \<open>sy\<close>, \<open>pSy1\<close> and \<open>pDx1\<close>).
\<close>

record scan =
  SCALEX :: Sint32
  SCALEY :: Sint32
  SX :: Sint32
  SY :: Sint32
  SY1 :: Sint32
  SrcXByteRead :: Sint32
  SrcByteWidth :: Sint32
  SrcXOffset :: Sint32
  DX1 :: Sint32
  MAXX :: Sint32
  DST_WIDTH :: Sint32

text \<open>
  \<open>spix[k]\<close>: the row buffer is kept as its bytes, since \<open>read\<close> may fill it only in
  part.
\<close>

definition spix_at :: "Uint8 list \<Rightarrow> int \<Rightarrow> Color32 option" where
  "spix_at spix k =
     (if k < 0 then None
      else (case drop (nat (4 * k)) spix of
              b # g # r # a # _ \<Rightarrow> Some \<lparr>blue = b, green = g, red = r, alpha = a\<rparr>
            | _ \<Rightarrow> None))"

fun stream_columns ::
  "Blender \<Rightarrow> scan \<Rightarrow> Uint8 list \<Rightarrow> int \<Rightarrow> nat \<Rightarrow> Sint32 \<Rightarrow> Color32 list \<Rightarrow> Color32 list option" where
  "stream_columns pBlend L spix dpix 0 x buf = Some buf"
| "stream_columns pBlend L spix dpix (Suc n) x buf =
     (let i = dpix + sint (x + DX1 L)
      in if 0 \<le> i \<and> i < int (length buf)
         then (case spix_at spix (sint (signed_drop_bit 16 (SCALEX L * (x + SX L)))) of
                 None \<Rightarrow> None
               | Some s \<Rightarrow>
                   (case pBlend (buf ! nat i) s of
                      None \<Rightarrow> None
                    | Some c \<Rightarrow> stream_columns pBlend L spix dpix n (x + 1) (buf[nat i := c])))
         else None)"

text \<open>
  The row loop: \<open>seekg\<close>, \<open>read\<close> into \<open>spix\<close>, then the columns. The state of the
  stream is not tested.
\<close>

fun stream_rows ::
  "Blender \<Rightarrow> scan \<Rightarrow> nat \<Rightarrow> Sint32 \<Rightarrow> int \<Rightarrow> ifstream \<Rightarrow> Uint8 list \<Rightarrow> Color32 list
     \<Rightarrow> Color32 list option" where
  "stream_rows pBlend L 0 y dpix fin spix buf = Some buf"
| "stream_rows pBlend L (Suc m) y dpix fin spix buf =
     (let fin = seekg fin
                  (sint ((signed_drop_bit 16 (SCALEY L * (y + SY L)) + SY1 L) * SrcByteWidth L
                         + SrcXOffset L))
      in case stream_read fin (nat (sint (SrcXByteRead L))) of
           (bs, fin) \<Rightarrow>
             if length spix < length bs then None
             else (case stream_columns pBlend L (store bs spix) dpix (nat (sint (MAXX L))) 0 buf of
                     None \<Rightarrow> None
                   | Some buf' \<Rightarrow>
                       stream_rows pBlend L m (y + 1) (dpix + sint (DST_WIDTH L)) fin
                         (store bs spix) buf'))"

text \<open>
  \<open>Image::Blit\<close> with a stream source. The result is the returned flag and the
  destination image; \<open>None\<close> where the call has no defined result or the exception of
  \<open>new Color32[pSx2 - pSx1]\<close> leaves it. The destination is not tested for a null
  array: the loops fault on their first access to it.
\<close>

definition Blit_stream ::
  "(nat \<Rightarrow> bool) \<Rightarrow> filesystem \<Rightarrow> Image \<Rightarrow> Sint32 \<Rightarrow> Sint32 \<Rightarrow> Sint32 \<Rightarrow> Sint32 \<Rightarrow> Stream \<Rightarrow> Blender
     \<Rightarrow> Sint32 \<Rightarrow> Sint32 \<Rightarrow> Sint32 \<Rightarrow> Sint32 \<Rightarrow> (bool \<times> Image) option" where
  "Blit_stream heap fs pDst pDx1 pDy1 pDx2 pDy2 pSrc pBlend pSx1 pSy1 pSx2 pSy2 =
     (let pSx1 = (if pSx1 <s 0 then 0 else pSx1);
          pSy1 = (if pSy1 <s 0 then 0 else pSy1);
          pSx2 = (if s_width pSrc <s pSx2 then s_width pSrc else pSx2);
          pSy2 = (if s_height pSrc <s pSy2 then s_height pSrc else pSy2)
      in case Sint32_of_float
                (fmul (fdiv (float_of_Sint32 (pSx2 - pSx1)) (float_of_Sint32 (pDx2 - pDx1)))
                      (float_of_Sint32 65536)) of
           None \<Rightarrow> None
         | Some scalex \<Rightarrow>
             (case Sint32_of_float
                     (fmul (fdiv (float_of_Sint32 (pSy2 - pSy1)) (float_of_Sint32 (pDy2 - pDy1)))
                           (float_of_Sint32 65536)) of
                None \<Rightarrow> None
              | Some scaley \<Rightarrow>
                  (let sx = (if pDx1 <s 0 then - pDx1 else 0);
                       sy = (if pDy1 <s 0 then - pDy1 else 0);
                       pDx1 = (if pDx1 <s 0 then 0 else pDx1);
                       pDy1 = (if pDy1 <s 0 then 0 else pDy1);
                       pDx2 = (if width pDst <s pDx2 then width pDst else pDx2);
                       pDy2 = (if height pDst <s pDy2 then height pDst else pDy2);
                       maxy = pDy2 - pDy1;
                       maxx = pDx2 - pDx1
                   in if maxx <s 0 \<or> maxy <s 0 then Some (True, pDst)
                      else
                        (let n = sint (pSx2 - pSx1)
                         in if n < 0 \<or> \<not> heap (nat n) then None
                            else
                              (case ifstream_open fs (s_file pSrc) of
                                 None \<Rightarrow> Some (False, pDst)
                               | Some fin \<Rightarrow>
                                   (let L = \<lparr>SCALEX = scalex, SCALEY = scaley, SX = sx, SY = sy,
                                             SY1 = pSy1,
                                             SrcXByteRead =
                                               (if 0 <s (pSx2 - pSx1) * 4 then (pSx2 - pSx1) * 4
                                                else 0),
                                             SrcByteWidth = s_width pSrc * 4,
                                             SrcXOffset = pSx1 * 4 + dataStart pSrc,
                                             DX1 = pDx1, MAXX = maxx, DST_WIDTH = width pDst\<rparr>;
                                        buf = (case pixels pDst of None \<Rightarrow> [] | Some b \<Rightarrow> b)
                                    in case stream_rows pBlend L (nat (sint maxy)) 0
                                              (sint (width pDst * pDy1)) fin
                                              (bytes_of_pixels (replicate (nat n) Color32_zero))
                                              buf of
                                         None \<Rightarrow> None
                                       | Some buf' \<Rightarrow>
                                           Some (True,
                                                 pDst\<lparr>pixels :=
                                                   map_option (\<lambda>b. buf') (pixels pDst)\<rparr>)))))))"

section \<open>The canvas and a rectangle outside it\<close>

text \<open>
  The destination rectangle spans the columns from the smaller to the larger of
  \<open>pDx1\<close> and \<open>pDx2\<close> and the rows from the smaller to the larger of \<open>pDy1\<close> and
  \<open>pDy2\<close>. It lies entirely outside the canvas when both column ends are at most 0 or
  at least the width, or both row ends are at most 0 or at least the height.
\<close>

definition outside_canvas :: "Image \<Rightarrow> Sint32 \<Rightarrow> Sint32 \<Rightarrow> Sint32 \<Rightarrow> Sint32 \<Rightarrow> bool" where
  "outside_canvas pDst pDx1 pDy1 pDx2 pDy2 \<longleftrightarrow>
     pDx1 \<le>s 0 \<and> pDx2 \<le>s 0 \<or> width pDst \<le>s pDx1 \<and> width pDst \<le>s pDx2 \<or>
     pDy1 \<le>s 0 \<and> pDy2 \<le>s 0 \<or> height pDst \<le>s pDy1 \<and> height pDst \<le>s pDy2"

section \<open>Values for the examples\<close>

text \<open>
  An allocator that never fails, a disk without files, a disk with one file, and a
  blender and a sampler whose every call is undefined.
\<close>

definition unlimited_heap :: "nat \<Rightarrow> bool" where
  "unlimited_heap n = True"

definition empty_disk :: filesystem where
  "empty_disk = \<lparr>files = (\<lambda>p. None), readonly = (\<lambda>p. False)\<rparr>"

definition disk_with :: "string \<Rightarrow> Uint8 list \<Rightarrow> filesystem" where
  "disk_with pFile bs =
     \<lparr>files = (\<lambda>p. if p = pFile then Some bs else None), readonly = (\<lambda>p. False)\<rparr>"

definition undefined_Blender :: Blender where
  "undefined_Blender pDst pSrc = None"

definition undefined_Sampler :: Sampler where
  "undefined_Sampler pImage pU pV = None"

section \<open>Properties of binary32 rounding\<close>

lemma pow2_pos: "0 < pow2 e"
  by (simp add: pow2_def)

lemma pow2_add: "pow2 (a + b) = pow2 a * pow2 b"
proof -
  have "pow2 e = 2 powi e" for e
    by (simp add: pow2_def power_int_def field_simps)
  then show ?thesis by (simp add: power_int_add)
qed

lemma pow2_mono: "a \<le> b \<Longrightarrow> pow2 a \<le> pow2 b"
proof -
  have "pow2 e = 2 powi e" for e
    by (simp add: pow2_def power_int_def field_simps)
  then show "a \<le> b \<Longrightarrow> pow2 a \<le> pow2 b" by (simp add: power_int_increasing)
qed

lemma pow2_nat: "pow2 (int n) = 2 ^ n"
  by (simp add: pow2_def)

lemma ilog2_bounds:
  assumes "0 < x"
  shows "pow2 (ilog2 x) \<le> x \<and> x < pow2 (ilog2 x + 1)"
proof (cases "1 \<le> x")
  case True
  define n where "n = \<lfloor>x\<rfloor>"
  have n: "0 < n" using True by (simp add: n_def)
  define k where "k = nat (bitlen n - 1)"
  from bitlen_bounds[OF n] have b: "2 ^ k \<le> n" "n < 2 ^ nat (bitlen n)" by (auto simp: k_def)
  have bl: "1 \<le> bitlen n" using n bitlen_eq_zero_iff[of n] bitlen_nonneg[of n] by linarith
  then have k1: "nat (bitlen n) = Suc k" by (simp add: k_def)
  have e: "ilog2 x = int k" using True bl by (simp add: ilog2_def n_def k_def)
  have nx: "rat_of_int n \<le> x" "x < rat_of_int n + 1"
    by (simp_all add: n_def) linarith+
  have "rat_of_int (2 ^ k) \<le> rat_of_int n" using b(1) by (simp only: of_int_le_iff)
  then have "(2::rat) ^ k \<le> rat_of_int n" by simp
  then have l: "pow2 (ilog2 x) \<le> x" using nx(1) unfolding e pow2_nat by linarith
  have "n + 1 \<le> 2 ^ Suc k" using b(2) k1 by simp
  then have "rat_of_int (n + 1) \<le> rat_of_int (2 ^ Suc k)" by (simp only: of_int_le_iff)
  then have "rat_of_int n + 1 \<le> 2 ^ Suc k" by simp
  moreover have "ilog2 x + 1 = int (Suc k)" using e by simp
  ultimately have "x < pow2 (ilog2 x + 1)" using nx(2) by (simp only: pow2_nat)
  with l show ?thesis by simp
next
  case False
  then have x1: "x < 1" by simp
  define c where "c = \<lceil>1 / x\<rceil>"
  define m where "m = c - 1"
  have "1 < 1 / x" using assms x1 by (simp add: field_simps)
  then have c2: "2 \<le> c" unfolding c_def by linarith
  then have m: "0 < m" by (simp add: m_def)
  have bl: "1 \<le> bitlen m" using m bitlen_eq_zero_iff[of m] bitlen_nonneg[of m] by linarith
  define k where "k = nat (bitlen m)"
  have k1: "1 \<le> k" "int k = bitlen m" using bl by (simp_all add: k_def)
  from bitlen_bounds[OF m] have b: "2 ^ nat (bitlen m - 1) \<le> m" "m < 2 ^ k" by (auto simp: k_def)
  have km: "nat (bitlen m - 1) = k - 1" using bl by (simp add: k_def nat_diff_distrib)
  have e: "ilog2 x = - int k" using False k1 by (simp add: ilog2_def m_def c_def)
  have "c \<le> 2 ^ k" using b(2) by (simp add: m_def)
  then have "rat_of_int c \<le> rat_of_int (2 ^ k)" by (simp only: of_int_le_iff)
  then have "rat_of_int c \<le> 2 ^ k" by simp
  moreover have "1 / x \<le> rat_of_int c" unfolding c_def by linarith
  ultimately have "1 / x \<le> 2 ^ k" by linarith
  then have l: "1 / 2 ^ k \<le> x" using assms by (simp add: field_simps)
  have "rat_of_int (2 ^ (k - 1)) \<le> rat_of_int m" using b(1) km by (simp only: of_int_le_iff)
  then have "(2::rat) ^ (k - 1) \<le> rat_of_int c - 1" by (simp add: m_def)
  moreover have "rat_of_int c - 1 < 1 / x" unfolding c_def by linarith
  ultimately have "2 ^ (k - 1) < 1 / x" by simp
  then have u: "x < 1 / 2 ^ (k - 1)" using assms by (simp add: field_simps)
  have "pow2 (- int k) = 1 / 2 ^ k" using k1 by (simp add: pow2_def)
  moreover have "pow2 (- int k + 1) = 1 / 2 ^ (k - 1)"
  proof (cases "k = 1")
    case True then show ?thesis by (simp add: pow2_def)
  next
    case False
    then have "nat (int k - 1) = k - 1" "\<not> (0 \<le> - int k + 1)" using k1 by auto
    then show ?thesis by (simp add: pow2_def)
  qed
  ultimately show ?thesis using l u e by simp
qed

lemma ilog2_unique:
  assumes "pow2 e \<le> x" "x < pow2 (e + 1)"
  shows "ilog2 x = e"
proof -
  have x: "0 < x" using assms(1) pow2_pos[of e] by linarith
  note b = ilog2_bounds[OF x]
  show ?thesis
  proof (rule ccontr)
    assume "ilog2 x \<noteq> e"
    then consider "ilog2 x + 1 \<le> e" | "e + 1 \<le> ilog2 x" by linarith
    then show False
    proof cases
      case 1 from pow2_mono[OF this] b assms show False by linarith
    next
      case 2 from pow2_mono[OF this] b assms show False by linarith
    qed
  qed
qed

lemma ilog2_mono:
  assumes "0 < x" "x \<le> y"
  shows "ilog2 x \<le> ilog2 y"
proof (rule ccontr)
  assume "\<not> ilog2 x \<le> ilog2 y"
  then have "ilog2 y + 1 \<le> ilog2 x" by simp
  from pow2_mono[OF this] ilog2_bounds[OF assms(1)] ilog2_bounds[of y] assms
  show False by linarith
qed

lemma rne_of_int: "rne (of_int n) = n"
  by (simp add: rne_def)

lemma rne_bounds: "rat_of_int (rne x) \<le> x + 1 / 2 \<and> x - 1 / 2 \<le> rat_of_int (rne x)"
  unfolding rne_def Let_def by (auto; linarith)

lemma rne_mono:
  assumes "x \<le> y"
  shows "rne x \<le> rne y"
proof (cases "\<lfloor>x\<rfloor> = \<lfloor>y\<rfloor>")
  case True
  then show ?thesis using assms unfolding rne_def Let_def by auto
next
  case False
  then have "\<lfloor>x\<rfloor> + 1 \<le> \<lfloor>y\<rfloor>" using floor_mono[OF assms] by linarith
  moreover have "rne x \<le> \<lfloor>x\<rfloor> + 1" unfolding rne_def Let_def by auto
  moreover have "\<lfloor>y\<rfloor> \<le> rne y" unfolding rne_def Let_def by auto
  ultimately show ?thesis by linarith
qed

lemma rne_ge: "rat_of_int n \<le> x \<Longrightarrow> n \<le> rne x"
  using rne_mono[of "of_int n" x] by (simp add: rne_of_int)

lemma rne_le: "x \<le> rat_of_int n \<Longrightarrow> rne x \<le> n"
  using rne_mono[of x "of_int n"] by (simp add: rne_of_int)


lemma ulp_pos: "0 < ulp x"
  by (simp add: ulp_def pow2_pos)

lemma pow2_24: "pow2 (e + 1) = 2 ^ 24 * pow2 (e - 23)"
proof -
  have "e + 1 = 24 + (e - 23)" by simp
  then have "pow2 (e + 1) = pow2 24 * pow2 (e - 23)" by (simp only: pow2_add)
  then show ?thesis by (simp add: pow2_def)
qed

lemma pow2_23: "pow2 e = 2 ^ 23 * pow2 (e - 23)"
proof -
  have "e = 23 + (e - 23)" by simp
  then have "pow2 e = pow2 23 * pow2 (e - 23)" by (metis pow2_add)
  then show ?thesis by (simp add: pow2_def)
qed

lemma rnd_zero: "rnd 0 = 0"
  by (simp add: rnd_def)

lemma rnd_nonneg:
  assumes "0 \<le> x"
  shows "0 \<le> rnd x"
proof (cases "x = 0")
  case True then show ?thesis by (simp add: rnd_def)
next
  case False
  have "0 \<le> x / ulp x" using assms ulp_pos[of x] by simp
  then have "0 \<le> rne (x / ulp x)" using rne_ge[of 0] by simp
  then show ?thesis using False ulp_pos[of x] by (simp add: rnd_def)
qed

lemma rnd_upper:
  assumes "0 < x"
  shows "rnd x \<le> pow2 (max (ilog2 x) (- 126) + 1)"
proof -
  define e where "e = max (ilog2 x) (- 126)"
  have u: "ulp x = pow2 (e - 23)" using assms by (simp add: ulp_def e_def)
  have "x < pow2 (ilog2 x + 1)" using ilog2_bounds[OF assms] by simp
  also have "\<dots> \<le> pow2 (e + 1)" by (rule pow2_mono) (simp add: e_def)
  finally have "x < 2 ^ 24 * pow2 (e - 23)" by (simp only: pow2_24)
  then have "x / ulp x \<le> rat_of_int (2 ^ 24)" using pow2_pos[of "e - 23"] by (simp add: u field_simps)
  then have "rne (x / ulp x) \<le> 2 ^ 24" by (rule rne_le)
  then have "rat_of_int (rne (x / ulp x)) \<le> 2 ^ 24"
    by (metis of_int_le_iff of_int_numeral of_int_power)
  then have "rat_of_int (rne (x / ulp x)) * ulp x \<le> 2 ^ 24 * ulp x"
    using ulp_pos[of x] by (simp only: mult_le_cancel_right_pos)
  then show ?thesis using assms unfolding rnd_def u e_def[symmetric] pow2_24[of e] by simp
qed

lemma rnd_lower:
  assumes "0 < x" "- 126 \<le> ilog2 x"
  shows "pow2 (ilog2 x) \<le> rnd x"
proof -
  define e where "e = ilog2 x"
  have u: "ulp x = pow2 (e - 23)" using assms by (simp add: ulp_def e_def max_def)
  have "2 ^ 23 * pow2 (e - 23) \<le> x" using ilog2_bounds[OF assms(1)] pow2_23[of e] by (simp add: e_def)
  then have "rat_of_int (2 ^ 23) \<le> x / ulp x" using pow2_pos[of "e - 23"] by (simp add: u field_simps)
  then have "2 ^ 23 \<le> rne (x / ulp x)" by (rule rne_ge)
  then have "2 ^ 23 \<le> rat_of_int (rne (x / ulp x))"
    by (metis of_int_le_iff of_int_numeral of_int_power)
  then have "2 ^ 23 * ulp x \<le> rat_of_int (rne (x / ulp x)) * ulp x"
    using ulp_pos[of x] by (simp only: mult_le_cancel_right_pos)
  then show ?thesis using assms unfolding rnd_def u e_def[symmetric] pow2_23[of e] by simp
qed

lemma rnd_mono_pos:
  assumes "0 < x" "x \<le> y"
  shows "rnd x \<le> rnd y"
proof -
  have y: "0 < y" using assms by simp
  define ex where "ex = max (ilog2 x) (- 126)"
  define ey where "ey = max (ilog2 y) (- 126)"
  have le: "ex \<le> ey" using ilog2_mono[OF assms] by (simp add: ex_def ey_def)
  show ?thesis
  proof (cases "ex = ey")
    case True
    then have u: "ulp x = ulp y" using assms y by (simp add: ulp_def ex_def ey_def)
    have "x / ulp y \<le> y / ulp y" using assms ulp_pos[of y] by (simp add: divide_right_mono)
    then have "rne (x / ulp y) \<le> rne (y / ulp y)" by (rule rne_mono)
    then have "rat_of_int (rne (x / ulp y)) * ulp y \<le> rat_of_int (rne (y / ulp y)) * ulp y"
      using ulp_pos[of y] by (simp only: mult_le_cancel_right_pos of_int_le_iff)
    then show ?thesis using assms y by (simp add: rnd_def u)
  next
    case False
    then have lt: "ex + 1 \<le> ey" using le by simp
    then have ey: "ey = ilog2 y" "- 126 \<le> ilog2 y" by (auto simp: ey_def ex_def)
    have "rnd x \<le> pow2 (ex + 1)" using rnd_upper[OF assms(1)] by (simp add: ex_def)
    also have "\<dots> \<le> pow2 ey" by (rule pow2_mono[OF lt])
    also have "\<dots> \<le> rnd y" using rnd_lower[OF y ey(2)] by (simp add: ey(1))
    finally show ?thesis .
  qed
qed

lemma rnd_mono:
  assumes "0 \<le> x" "x \<le> y"
  shows "rnd x \<le> rnd y"
proof (cases "x = 0")
  case True
  then show ?thesis using rnd_nonneg[of y] assms by (simp add: rnd_zero)
next
  case False
  then show ?thesis using rnd_mono_pos[of x y] assms by simp
qed

lemma rnd_fix:
  assumes "0 \<le> m" "m < 2 ^ 24" "- 149 \<le> s"
  shows "rnd (rat_of_int m * pow2 s) = rat_of_int m * pow2 s"
proof (cases "m = 0")
  case True then show ?thesis by (simp add: rnd_def)
next
  case False
  define x where "x = rat_of_int m * pow2 s"
  have m: "0 < m" using assms False by simp
  have x: "0 < x" using m pow2_pos[of s] by (simp add: x_def)
  define e where "e = max (ilog2 x) (- 126)"
  have u: "ulp x = pow2 (e - 23)" using x by (simp add: ulp_def e_def)
  have es: "e - 23 \<le> s"
  proof (cases "ilog2 x \<le> - 126")
    case True then show ?thesis using assms by (simp add: e_def)
  next
    case False
    then have e: "e = ilog2 x" by (simp add: e_def)
    have "rat_of_int m < 2 ^ 24" using assms(2) by (metis of_int_less_iff of_int_numeral of_int_power)
    then have "x < 2 ^ 24 * pow2 s" using pow2_pos[of s] by (simp add: x_def)
    also have "2 ^ 24 * pow2 s = pow2 (24 + s)" by (simp add: pow2_add) (simp add: pow2_def)
    finally have xlt: "x < pow2 (24 + s)" .
    have "\<not> (24 + s \<le> e)"
    proof
      assume a: "24 + s \<le> e"
      have "pow2 (24 + s) \<le> pow2 e" by (rule pow2_mono[OF a])
      then show False using ilog2_bounds[OF x] e xlt by simp
    qed
    then show ?thesis by simp
  qed
  define d where "d = nat (s - (e - 23))"
  have "s = int d + (e - 23)" using es by (simp add: d_def)
  then have ps: "pow2 s = 2 ^ d * pow2 (e - 23)" by (metis pow2_add pow2_nat)
  have xd: "x = rat_of_int (m * 2 ^ d) * pow2 (e - 23)" by (simp add: x_def ps)
  have "x / ulp x = rat_of_int (m * 2 ^ d)"
    unfolding u using pow2_pos[of "e - 23"] by (subst xd) simp
  then have "rne (x / ulp x) = m * 2 ^ d" by (simp only: rne_of_int)
  then have "rnd x = rat_of_int (m * 2 ^ d) * pow2 (e - 23)" using x by (simp add: rnd_def u)
  also have "\<dots> = x" using ps by (simp add: x_def)
  finally show ?thesis by (simp add: x_def)
qed

lemma rnd_of_nat:
  assumes "n < 2 ^ 24"
  shows "rnd (rat_of_nat n) = rat_of_nat n"
proof -
  have "int n < 2 ^ 24" using assms by (metis of_nat_less_iff of_nat_numeral of_nat_power)
  then show ?thesis using rnd_fix[of "int n" 0] by (simp add: pow2_def)
qed

lemma round32_Fin:
  assumes "0 \<le> x" "x \<le> 65536"
  shows "round32 x = Fin (rnd x)"
proof -
  have "rnd x \<le> rnd 65536" using rnd_mono[OF assms] .
  also have "rnd 65536 = 65536" using rnd_of_nat[of 65536] by simp
  finally have "rnd x \<le> 65536" .
  moreover have "0 \<le> rnd x" using rnd_nonneg[OF assms(1)] .
  ultimately show ?thesis by (simp add: round32_def Let_def)
qed

section \<open>Properties of the blenders\<close>

text \<open>
  C9. For every destination colour, source colour and key, the ColorKey blender
  returns the destination colour exactly when source and key agree on the red, green
  and blue channels, and the source colour otherwise; the alpha channels of source and
  key play no part in the choice.
\<close>

theorem ColorKey_rgb_match:
  "ColorKey key pDst pSrc =
     Some (if red pSrc = red key \<and> green pSrc = green key \<and> blue pSrc = blue key
           then pDst else pSrc)
   \<and> color_eq (pSrc\<lparr>alpha := a\<rparr>) (key\<lparr>alpha := b\<rparr>) = color_eq pSrc key"
  by (simp add: ColorKey_def color_eq_def)

subsection \<open>Grayscale\<close>

lemma weight_values:
  "rnd (3 / 10) = 5033165 / 16777216"
  "rnd (59 / 100) = 9898557 / 16777216"
  "rnd (11 / 100) = 7381975 / 67108864"
  by code_simp+

lemma weight_tops:
  "rnd (255 * (5033165 / 16777216)) = 153 / 2"
  "rnd (255 * (9898557 / 16777216)) = 9859891 / 65536"
  "rnd (255 * (7381975 / 67108864)) = 7353139 / 262144"
  "rnd (153 / 2 + 9859891 / 65536) = 14873395 / 65536"
  "rnd (14873395 / 65536 + 7353139 / 262144) = 255"
  by code_simp+

lemma unat_Uint8_le: "rat_of_nat (unat (c :: Uint8)) \<le> 255"
proof -
  have "unat c < 2 ^ LENGTH(8)" by (rule unsigned_less)
  then have "unat c \<le> 255" by simp
  then have "rat_of_nat (unat c) \<le> rat_of_nat 255" by (simp only: of_nat_le_iff)
  then show ?thesis by simp
qed

lemma rnd_error_256:
  assumes "0 \<le> x" "x < 256"
  shows "\<bar>rnd x - x\<bar> \<le> 1 / 2 ^ 17"
proof (cases "x = 0")
  case True then show ?thesis by (simp add: rnd_def)
next
  case False
  then have x: "0 < x" using assms by simp
  define e where "e = max (ilog2 x) (- 126)"
  have u: "ulp x = pow2 (e - 23)" using x by (simp add: ulp_def e_def)
  have "ilog2 x \<le> 7"
  proof (rule ccontr)
    assume "\<not> ilog2 x \<le> 7"
    then have "pow2 8 \<le> pow2 (ilog2 x)" by (intro pow2_mono) simp
    then show False using ilog2_bounds[OF x] assms(2) by (simp add: pow2_def)
  qed
  then have "pow2 (e - 23) \<le> pow2 (- 16)" by (intro pow2_mono) (simp add: e_def)
  then have ub: "ulp x \<le> 1 / 2 ^ 16" by (simp add: u pow2_def)
  have up: "0 < ulp x" by (rule ulp_pos)
  define m where "m = rat_of_int (rne (x / ulp x))"
  have "\<bar>m - x / ulp x\<bar> \<le> 1 / 2" using rne_bounds[of "x / ulp x"] unfolding m_def by linarith
  then have "\<bar>m - x / ulp x\<bar> * ulp x \<le> 1 / 2 * ulp x" using up by (intro mult_right_mono) simp_all
  moreover have "\<bar>m - x / ulp x\<bar> * ulp x = \<bar>m * ulp x - x\<bar>"
  proof -
    have "\<bar>m - x / ulp x\<bar> * ulp x = \<bar>(m - x / ulp x) * ulp x\<bar>" using up by (simp add: abs_mult)
    also have "(m - x / ulp x) * ulp x = m * ulp x - x" using up by (simp add: field_simps)
    finally show ?thesis .
  qed
  moreover have "rnd x = m * ulp x" using x by (simp add: rnd_def m_def)
  ultimately have "\<bar>rnd x - x\<bar> \<le> 1 / 2 * ulp x" by simp
  then show ?thesis using ub by simp
qed

lemma fmul_weight_error:
  assumes "0 \<le> w" "rnd k = w" "0 \<le> k" "k \<le> 1" "rnd (255 * w) = t" "\<bar>w - k\<bar> \<le> d"
  shows "\<exists>a. fmul (float_of_Uint8 c) (round32 k) = Fin a \<and> 0 \<le> a \<and> a \<le> t
           \<and> \<bar>a - rat_of_nat (unat c) * k\<bar> \<le> 1 / 2 ^ 17 + 255 * d"
proof -
  define r where "r = rat_of_nat (unat c)"
  have r: "0 \<le> r" "r \<le> 255"
    using unat_Uint8_le[of c] unfolding r_def by (simp_all only: of_nat_0_le_iff)
  have k: "round32 k = Fin w" using round32_Fin[of k] assms by simp
  have w1: "w \<le> 1" using rnd_mono[of k 1] rnd_of_nat[of 1] assms by simp
  have rw: "r * w \<le> 255 * 1" using r assms(1) w1 by (intro mult_mono) auto
  then have p: "0 \<le> r * w" "r * w \<le> 65536" using r assms(1) by simp_all
  have le: "r * w \<le> 255 * w" using r assms(1) by (simp add: mult_right_mono)
  have f: "fmul (float_of_Uint8 c) (round32 k) = Fin (rnd (r * w))"
    using round32_Fin[OF p] by (simp add: float_of_Uint8_def k r_def)
  have a0: "0 \<le> rnd (r * w)" using rnd_nonneg[OF p(1)] .
  have at: "rnd (r * w) \<le> t" using rnd_mono[OF p(1) le] assms(5) by simp
  have e1: "\<bar>rnd (r * w) - r * w\<bar> \<le> 1 / 2 ^ 17" using rw p(1) by (intro rnd_error_256) simp_all
  have "\<bar>r * w - r * k\<bar> = r * \<bar>w - k\<bar>" using r(1) by (simp add: abs_mult flip: right_diff_distrib)
  also have "\<dots> \<le> 255 * d" using r assms(6) by (intro mult_mono) simp_all
  finally have e2: "\<bar>r * w - r * k\<bar> \<le> 255 * d" .
  have "\<bar>rnd (r * w) - r * k\<bar> \<le> 1 / 2 ^ 17 + 255 * d" using e1 e2 by linarith
  then show ?thesis using f a0 at unfolding r_def by blast
qed

lemma Gray_luma:
  "\<exists>g. Gray pSrc = Some g
     \<and> 100 * unat g \<le> 30 * unat (red pSrc) + 59 * unat (green pSrc) + 11 * unat (blue pSrc)
     \<and> 30 * unat (red pSrc) + 59 * unat (green pSrc) + 11 * unat (blue pSrc) \<le> 100 * unat g + 100"
proof -
  define R where "R = unat (red pSrc)"
  define G where "G = unat (green pSrc)"
  define B where "B = unat (blue pSrc)"
  obtain a where a: "fmul (float_of_Uint8 (red pSrc)) (round32 (3 / 10)) = Fin a"
      "0 \<le> a" "a \<le> 153 / 2" "\<bar>a - rat_of_nat R * (3 / 10)\<bar> \<le> 1 / 2 ^ 17 + 255 * (1 / 2 ^ 24)"
    using fmul_weight_error[OF _ weight_values(1) _ _ weight_tops(1), of "1 / 2 ^ 24" "red pSrc"]
    by (auto simp: R_def)
  obtain b where b: "fmul (float_of_Uint8 (green pSrc)) (round32 (59 / 100)) = Fin b"
      "0 \<le> b" "b \<le> 9859891 / 65536"
      "\<bar>b - rat_of_nat G * (59 / 100)\<bar> \<le> 1 / 2 ^ 17 + 255 * (1 / 2 ^ 24)"
    using fmul_weight_error[OF _ weight_values(2) _ _ weight_tops(2), of "1 / 2 ^ 24" "green pSrc"]
    by (auto simp: G_def)
  obtain c where c: "fmul (float_of_Uint8 (blue pSrc)) (round32 (11 / 100)) = Fin c"
      "0 \<le> c" "c \<le> 7353139 / 262144"
      "\<bar>c - rat_of_nat B * (11 / 100)\<bar> \<le> 1 / 2 ^ 17 + 255 * (1 / 2 ^ 24)"
    using fmul_weight_error[OF _ weight_values(3) _ _ weight_tops(3), of "1 / 2 ^ 24" "blue pSrc"]
    by (auto simp: B_def)
  define d where "d = rnd (a + b)"
  have ab: "0 \<le> a + b" "a + b \<le> 153 / 2 + 9859891 / 65536" using a b by simp_all
  have d: "fadd (Fin a) (Fin b) = Fin d" using round32_Fin[of "a + b"] ab by (simp add: d_def)
  have d0: "0 \<le> d" using rnd_nonneg[OF ab(1)] by (simp add: d_def)
  have dt: "d \<le> 14873395 / 65536" using rnd_mono[OF ab] weight_tops(4) by (simp add: d_def)
  have de: "\<bar>d - (a + b)\<bar> \<le> 1 / 2 ^ 17" unfolding d_def using ab by (intro rnd_error_256) simp_all
  define e where "e = rnd (d + c)"
  have dc: "0 \<le> d + c" "d + c \<le> 14873395 / 65536 + 7353139 / 262144" using d0 dt c by simp_all
  have e: "fadd (Fin d) (Fin c) = Fin e" using round32_Fin[of "d + c"] dc by (simp add: e_def)
  have e0: "0 \<le> e" using rnd_nonneg[OF dc(1)] by (simp add: e_def)
  have et: "e \<le> 255" using rnd_mono[OF dc] weight_tops(5) by (simp add: e_def)
  have ee: "\<bar>e - (d + c)\<bar> \<le> 1 / 2 ^ 17" unfolding e_def using dc by (intro rnd_error_256) simp_all
  define n where "n = \<lfloor>e\<rfloor>"
  have n: "0 \<le> n" "n \<le> 255" using e0 et by (simp_all add: n_def floor_le_iff)
  have ne: "rat_of_int n \<le> e" "e < rat_of_int n + 1" by (simp_all add: n_def) linarith
  have "Uint8_of_float (Fin e) = Some (word_of_int n)" using e0 n by (simp add: trunc_zero_def n_def)
  moreover have "Gray pSrc = Uint8_of_float (Fin e)" by (simp only: Gray_def a b c d e)
  ultimately have g: "Gray pSrc = Some (word_of_int n)" by simp
  have un: "int (unat (word_of_int n :: Uint8)) = n"
    using n by (simp add: unsigned_of_int take_bit_int_eq_self)
  define N where "N = 30 * int R + 59 * int G + 11 * int B"
  have L: "rat_of_nat R * (3 / 10) + rat_of_nat G * (59 / 100) + rat_of_nat B * (11 / 100)
             = rat_of_int N / 100"
    by (simp add: N_def field_simps)
  have "\<bar>e - rat_of_int N / 100\<bar> \<le> 5 * (1 / 2 ^ 17) + 3 * (255 * (1 / 2 ^ 24))"
    using a(4) b(4) c(4) de ee unfolding L[symmetric] by linarith
  then have err: "\<bar>e - rat_of_int N / 100\<bar> < 1 / 100" by simp
  define Lq where "Lq = rat_of_int N / 100"
  have NL: "rat_of_int N = 100 * Lq" by (simp add: Lq_def)
  have err': "\<bar>e - Lq\<bar> < 1 / 100" using err by (simp only: Lq_def)
  have el: "e - Lq < 1 / 100" "Lq - e < 1 / 100" using err' by linarith+
  have "100 * rat_of_int n - 1 < 100 * Lq" using el ne by linarith
  then have "rat_of_int (100 * n) - 1 < rat_of_int N" unfolding NL by simp
  then have "100 * n - 1 < N" by (metis of_int_1 of_int_diff of_int_less_iff)
  then have lo: "100 * n \<le> N" by simp
  have "100 * Lq < 100 * rat_of_int n + 100 + 1" using el ne by linarith
  then have "rat_of_int N < rat_of_int (100 * n + 100) + 1" unfolding NL by simp
  then have "N < 100 * n + 100 + 1" by (metis of_int_1 of_int_add of_int_less_iff)
  then have hi: "N \<le> 100 * n + 100" by simp
  have "int (100 * unat (word_of_int n :: Uint8)) \<le> int (30 * R + 59 * G + 11 * B)"
    using lo un by (simp add: N_def)
  then have lo': "100 * unat (word_of_int n :: Uint8) \<le> 30 * R + 59 * G + 11 * B"
    by (simp only: of_nat_le_iff)
  have "int (30 * R + 59 * G + 11 * B) \<le> int (100 * unat (word_of_int n :: Uint8) + 100)"
    using hi un by (simp add: N_def)
  then have hi': "30 * R + 59 * G + 11 * B \<le> 100 * unat (word_of_int n :: Uint8) + 100"
    by (simp only: of_nat_le_iff)
  show ?thesis using g lo' hi' by (simp add: R_def G_def B_def)
qed

text \<open>
  C5 (as amended). For every destination and source colour the Grayscale blender is
  defined and returns a colour whose red, green and blue channels all equal \<open>Gray\<close>,
  the binary32 luma of the source with weights 0.3, 0.59 and 0.11 cast to a byte, and
  whose alpha channel is 255. \<open>Gray\<close> is the exact luma
  \<open>(30 red + 59 green + 11 blue) / 100\<close> rounded down, or one less where rounding leaves
  the sum just below a whole number: the exact luma lies between \<open>Gray\<close> and
  \<open>Gray + 1\<close>. The result depends neither on the destination nor on the alpha channel
  of the source.
\<close>

theorem Grayscale_opaque_luma:
  "\<exists>g. Gray pSrc = Some g
     \<and> 100 * unat g \<le> 30 * unat (red pSrc) + 59 * unat (green pSrc) + 11 * unat (blue pSrc)
     \<and> 30 * unat (red pSrc) + 59 * unat (green pSrc) + 11 * unat (blue pSrc) \<le> 100 * unat g + 100
     \<and> Grayscale pDst pSrc = Some \<lparr>blue = g, green = g, red = g, alpha = 255\<rparr>
     \<and> Grayscale pDst' (pSrc\<lparr>alpha := a\<rparr>) = Grayscale pDst pSrc"
proof -
  obtain g where g: "Gray pSrc = Some g"
    and l: "100 * unat g \<le> 30 * unat (red pSrc) + 59 * unat (green pSrc) + 11 * unat (blue pSrc)"
      "30 * unat (red pSrc) + 59 * unat (green pSrc) + 11 * unat (blue pSrc) \<le> 100 * unat g + 100"
    using Gray_luma by blast
  have "Gray (pSrc\<lparr>alpha := a\<rparr>) = Gray pSrc" by (simp add: Gray_def)
  then have "Grayscale pDst pSrc = Some \<lparr>blue = g, green = g, red = g, alpha = 255\<rparr>
      \<and> Grayscale pDst' (pSrc\<lparr>alpha := a\<rparr>) = Grayscale pDst pSrc"
    using g by (simp add: Grayscale_def Color32_rgb_def Color32_rgba_def UCHAR_MAX_def)
  then show ?thesis using g l by blast
qed

text \<open>
  C5 as stated fails: the alpha channel of the result is 255 whatever the alpha channel
  of the source. Source colour (10, 20, 30) with alpha 7: the result is the grey 18
  with alpha 255.
\<close>

theorem Grayscale_alpha_counterexample:
  "Grayscale Color32_zero \<lparr>blue = 30, green = 20, red = 10, alpha = 7\<rparr>
     = Some \<lparr>blue = 18, green = 18, red = 18, alpha = 255\<rparr>"
  by code_simp

section \<open>Properties of the table construction\<close>

declare add_count.simps [simp del] fill_from.simps [simp del] add_rows.simps [simp del]
  sub_count.simps [simp del] sub_rows.simps [simp del] mul_cols.simps [simp del]
  mul_rows.simps [simp del] fchan_loop.simps [simp del]

lemma fill_from_eq:
  "fill_from c r j k = (if j \<le> k \<and> k \<le> 255 then c else r k)"
proof (induction c r j rule: fill_from.induct)
  case (1 c r j)
  show ?case
  proof (cases "j \<le> 255")
    case True
    have "fill_from c r j k = fill_from c (r(j := c)) (j + 1) k"
      using True by (subst fill_from.simps) simp
    also have "\<dots> = (if j + 1 \<le> k \<and> k \<le> 255 then c else (r(j := c)) k)"
      by (rule 1[OF True])
    also have "\<dots> = (if j \<le> k \<and> k \<le> 255 then c else r k)"
      using True by auto
    finally show ?thesis .
  next
    case False
    then show ?thesis by (subst fill_from.simps) auto
  qed
qed

lemma add_count_eq:
  "n \<le> 256 \<Longrightarrow>
   add_count r j n =
     ((\<lambda>k. if j \<le> k \<and> k < j + (256 - n) then of_nat (n + (k - j)) else r k), j + (256 - n))"
proof (induction r j n rule: add_count.induct)
  case (1 r j n)
  show ?case
  proof (cases "n \<le> 255")
    case True
    have "add_count r j n = add_count (r(j := of_nat n)) (j + 1) (n + 1)"
      using True by (subst add_count.simps) simp
    also have "\<dots> = ((\<lambda>k. if j + 1 \<le> k \<and> k < j + 1 + (256 - (n + 1))
                            then of_nat (n + 1 + (k - (j + 1))) else (r(j := of_nat n)) k),
                      j + 1 + (256 - (n + 1)))"
      using True by (intro 1(1)) simp_all
    also have "\<dots> = ((\<lambda>k. if j \<le> k \<and> k < j + (256 - n) then of_nat (n + (k - j)) else r k),
                      j + (256 - n))"
      using True by (auto simp: fun_eq_iff)
    finally show ?thesis .
  next
    case False
    then have "n = 256" using 1(2) by simp
    then show ?thesis by (subst add_count.simps) (auto simp: fun_eq_iff)
  qed
qed

lemma sub_count_eq:
  "- 1 \<le> n \<Longrightarrow>
   sub_count r j n =
     ((\<lambda>k. if j \<le> k \<and> int k < int j + (n + 1) then of_int (n - (int k - int j)) else r k),
      j + nat (n + 1))"
proof (induction r j n rule: sub_count.induct)
  case (1 r j n)
  show ?case
  proof (cases "0 \<le> n")
    case True
    have "sub_count r j n = sub_count (r(j := of_int n)) (j + 1) (n - 1)"
      using True by (subst sub_count.simps) simp
    also have "\<dots> = ((\<lambda>k. if j + 1 \<le> k \<and> int k < int (j + 1) + (n - 1 + 1)
                            then of_int (n - 1 - (int k - int (j + 1))) else (r(j := of_int n)) k),
                      j + 1 + nat (n - 1 + 1))"
      using True by (intro 1(1)) simp_all
    also have "\<dots> = ((\<lambda>k. if j \<le> k \<and> int k < int j + (n + 1)
                            then of_int (n - (int k - int j)) else r k),
                      j + nat (n + 1))"
      using True by (auto simp: fun_eq_iff nat_add_distrib)
    finally show ?thesis .
  next
    case False
    then have "n = - 1" using 1(2) by simp
    then show ?thesis by (subst sub_count.simps) (auto simp: fun_eq_iff)
  qed
qed

lemma add_rows_eq:
  "add_rows t i i' k =
     (if i \<le> i' \<and> i' \<le> 255
      then (if k < 256 - i' then of_nat (i' + k) else if k \<le> 255 then 255 else t i' k)
      else t i' k)"
proof (induction t i rule: add_rows.induct)
  case (1 t i)
  show ?case
  proof (cases "i \<le> 255")
    case True
    define t' where "t' = t(i := (case add_count (t i) 0 i of (r, j) \<Rightarrow> fill_from 255 r j))"
    have row: "t' i k = (if k < 256 - i then of_nat (i + k) else if k \<le> 255 then 255 else t i k)"
      using True by (auto simp: t'_def add_count_eq fill_from_eq)
    have other: "i' \<noteq> i \<Longrightarrow> t' i' k = t i' k" by (simp add: t'_def)
    have "add_rows t i i' k = add_rows t' (i + 1) i' k"
      using True unfolding t'_def by (subst add_rows.simps) simp
    also have "\<dots> = (if i + 1 \<le> i' \<and> i' \<le> 255
      then (if k < 256 - i' then of_nat (i' + k) else if k \<le> 255 then 255 else t' i' k)
      else t' i' k)"
      unfolding t'_def by (rule 1[OF True])
    also have "\<dots> = (if i \<le> i' \<and> i' \<le> 255
      then (if k < 256 - i' then of_nat (i' + k) else if k \<le> 255 then 255 else t i' k)
      else t i' k)"
      using True row other by (cases "i' = i") auto
    finally show ?thesis .
  next
    case False
    then show ?thesis by (subst add_rows.simps) auto
  qed
qed

lemma sub_rows_eq:
  "sub_rows t i i' k =
     (if i \<le> i' \<and> i' \<le> 255
      then (if k \<le> i' then of_nat (i' - k) else if k \<le> 255 then 0 else t i' k)
      else t i' k)"
proof (induction t i rule: sub_rows.induct)
  case (1 t i)
  show ?case
  proof (cases "i \<le> 255")
    case True
    define t' where "t' = t(i := (case sub_count (t i) 0 (int i) of (r, j) \<Rightarrow> fill_from 0 r j))"
    have row: "t' i k = (if k \<le> i then of_nat (i - k) else if k \<le> 255 then 0 else t i k)"
      using True by (auto simp: t'_def sub_count_eq fill_from_eq of_nat_diff)
    have other: "i' \<noteq> i \<Longrightarrow> t' i' k = t i' k" by (simp add: t'_def)
    have "sub_rows t i i' k = sub_rows t' (i + 1) i' k"
      using True unfolding t'_def by (subst sub_rows.simps) simp
    also have "\<dots> = (if i + 1 \<le> i' \<and> i' \<le> 255
      then (if k \<le> i' then of_nat (i' - k) else if k \<le> 255 then 0 else t' i' k)
      else t' i' k)"
      unfolding t'_def by (rule 1[OF True])
    also have "\<dots> = (if i \<le> i' \<and> i' \<le> 255
      then (if k \<le> i' then of_nat (i' - k) else if k \<le> 255 then 0 else t i' k)
      else t i' k)"
      using True row other by (cases "i' = i") auto
    finally show ?thesis .
  next
    case False
    then show ?thesis by (subst sub_rows.simps) auto
  qed
qed

lemma fchan_loop_eq:
  "fchan_loop f i k =
     (if i \<le> k \<and> k \<le> 255 then fdiv (Fin 255) (float_of_Sint32 (of_nat k)) else f k)"
proof (induction f i rule: fchan_loop.induct)
  case (1 f i)
  show ?case
  proof (cases "i < 255 + 1")
    case True
    have "fchan_loop f i k
            = fchan_loop (f(i := fdiv (Fin 255) (float_of_Sint32 (of_nat i)))) (i + 1) k"
      using True by (subst fchan_loop.simps) simp
    also have "\<dots> = (if i + 1 \<le> k \<and> k \<le> 255 then fdiv (Fin 255) (float_of_Sint32 (of_nat k))
                       else (f(i := fdiv (Fin 255) (float_of_Sint32 (of_nat i)))) k)"
      by (rule 1[OF True])
    also have "\<dots> = (if i \<le> k \<and> k \<le> 255 then fdiv (Fin 255) (float_of_Sint32 (of_nat k)) else f k)"
      using True by auto
    finally show ?thesis .
  next
    case False
    then show ?thesis by (subst fchan_loop.simps) auto
  qed
qed


lemma float_of_Sint32_small:
  assumes "k \<le> 65536"
  shows "float_of_Sint32 (of_nat k) = Fin (of_nat k)"
proof -
  have "int k < 2 ^ 31" using assms by simp
  then have "sint (word_of_nat k :: 32 word) = int k"
    by (simp add: signed_of_nat signed_take_bit_int_eq_self)
  moreover have "round32 (rat_of_nat k) = Fin (rat_of_nat k)"
    using round32_Fin[of "rat_of_nat k"] rnd_of_nat[of k] assms by simp
  ultimately show ?thesis by (simp add: float_of_Sint32_def)
qed

lemma fchan_loop_reciprocal:
  "i \<le> 255 \<Longrightarrow>
     fchan_loop f 0 i = fdiv (Fin 255) (Fin (of_nat i))
   \<and> fchan_loop f 0 i = (if i = 0 then PInf else Fin (rnd (255 / of_nat i)))"
proof -
  assume i: "i \<le> 255"
  have e: "fchan_loop f 0 i = fdiv (Fin 255) (Fin (of_nat i))"
    using i float_of_Sint32_small[of i] by (simp add: fchan_loop_eq)
  show ?thesis
  proof (cases "i = 0")
    case True
    then show ?thesis using e by simp
  next
    case False
    then have "1 \<le> rat_of_nat i" by simp
    then have "255 / rat_of_nat i \<le> 255" "0 \<le> 255 / rat_of_nat i"
      by (simp_all add: field_simps)
    then have "round32 (255 / rat_of_nat i) = Fin (rnd (255 / rat_of_nat i))"
      using round32_Fin[of "255 / rat_of_nat i"] by simp
    then show ?thesis using e False by simp
  qed
qed

section \<open>Properties of Save, Load and Stream::Load\<close>

lemma Sint32_bytes_roundtrip: "Sint32_of_bytes (bytes_of_Sint32 n) = n"
proof (rule bit_word_eqI)
  fix k
  assume "k < LENGTH(32)"
  then consider "k < 8" | "8 \<le> k" "k < 16" | "16 \<le> k" "k < 24" | "24 \<le> k" "k < 32"
    by fastforce
  then show "bit (Sint32_of_bytes (bytes_of_Sint32 n)) k = bit n k"
    unfolding bytes_of_Sint32_def Sint32_of_bytes.simps
    by cases (auto simp: bit_simps)
qed

lemma length_bytes_of_Sint32: "length (bytes_of_Sint32 n) = 4"
  by (simp add: bytes_of_Sint32_def)

lemma store_full: "length bs = length obj \<Longrightarrow> store bs obj = bs"
  by (simp add: store_def)

lemma length_bytes_of_pixels: "length (bytes_of_pixels buf) = 4 * length buf"
  by (induction buf) (simp_all add: bytes_of_pixels_def bytes_of_Color32_def)

lemma pixels_bytes_roundtrip: "pixels_of_bytes (bytes_of_pixels buf) = buf"
  by (induction buf) (simp_all add: bytes_of_pixels_def bytes_of_Color32_def)

lemma read_Sint32_at:
  assumes "\<not> failbit fin" "drop (gpos fin) (content fin) = bytes_of_Sint32 n @ rest"
  shows "read_Sint32 fin old = (n, fin\<lparr>gpos := gpos fin + 4, failbit := False\<rparr>)"
  using assms
  by (simp add: read_Sint32_def stream_read_def Let_def length_bytes_of_Sint32
      store_full Sint32_bytes_roundtrip)


lemma dims_product:
  fixes w h :: Sint32
  assumes "0 <s w" "w \<le>s MaxDimension" "0 <s h" "h \<le>s MaxDimension" "0 \<le> sint (w * h)"
  shows "sint (w * h) = sint w * sint h" "0 < sint (w * h)"
proof -
  have w: "0 < sint w" "sint w \<le> 65535" and h: "0 < sint h" "sint h \<le> 65535"
    using assms by (simp_all add: word_sless_alt word_sle_eq MaxDimension_def)
  define P where "P = sint w * sint h"
  have P0: "0 < P" using w h by (simp add: P_def)
  have "P \<le> 65535 * 65535" unfolding P_def using w h by (intro mult_mono) auto
  then have P1: "P < 2 ^ 32" by simp
  have s: "sint (w * h) = signed_take_bit 31 P" by (simp add: sint_word_mult P_def)
  have "P < 2 ^ 31"
  proof (rule ccontr)
    assume "\<not> P < 2 ^ 31"
    then have ge: "2 ^ 31 \<le> P" by simp
    have "(P + 2 ^ 31) mod 2 ^ 32 = P + 2 ^ 31 - 2 ^ 32"
      using ge P1 by (simp add: mod_pos_geq)
    then have "signed_take_bit 31 P = P - 2 ^ 32"
      by (simp add: signed_take_bit_eq_take_bit_shift take_bit_eq_mod)
    then show False using assms(5) s P1 by simp
  qed
  then have "signed_take_bit 31 P = P" using P0 by (simp add: signed_take_bit_int_eq_self)
  then show "sint (w * h) = sint w * sint h" "0 < sint (w * h)" using s P0 by (simp_all add: P_def)
qed

lemma Image_eqI: "pixels a = pixels b \<Longrightarrow> width a = width b \<Longrightarrow> height a = height b \<Longrightarrow> a = (b :: Image)"
  by simp

lemma Create_True:
  assumes "Create heap i0 w h = (True, img, m)"
  shows "img = \<lparr>pixels = Some (replicate (nat (sint (w * h))) Color32_zero), width = w, height = h\<rparr>"
    and "m = None" and "wf_image img" and "heap (nat (sint (w * h)))"
  using assms
  by (auto simp: Create_def Let_def IsGood_def Free_def wf_image_def split: if_splits)

lemma wf_image_update:
  assumes "wf_image img" and "pixels img = Some buf"
  shows "wf_image (img\<lparr>pixels := Some (buf[i := c])\<rparr>)"
  using assms by (simp add: wf_image_def)

text \<open>
  C6. For every well-formed image that holds pixels, whatever their values, every path
  that an \<open>ofstream\<close> can open and every second image whose allocation in \<open>Load\<close>
  succeeds: \<open>Save\<close> returns true, and \<open>Load\<close> of the saved file into the second image
  returns true and leaves it with the width, the height and the pixel array of the
  original, pixel for pixel. An image for which \<open>Create\<close> returned true is well formed
  (\<open>Create_True\<close>) and stays so when a pixel is written (\<open>wf_image_update\<close>), so this
  covers a freshly created image before and after drawing into it.
\<close>

theorem Save_Load_roundtrip:
  assumes wf: "wf_image img" and buf: "pixels img = Some buf"
    and ro: "\<not> readonly fs pFile" and heap: "heap (length buf)"
  shows "\<exists>fs'. Save fs img pFile = Some (True, fs', None)
              \<and> Load heap fs' img2 pFile = (True, img, None)"
proof -
  define w where "w = width img"
  define h where "h = height img"
  have d: "0 <s w" "w \<le>s MaxDimension" "0 <s h" "h \<le>s MaxDimension"
      and len: "int (length buf) = sint (w * h)"
    using wf buf by (simp_all add: wf_image_def w_def h_def)
  have pos: "0 < sint (w * h)" using dims_product(2)[OF d] len by simp
  then have nz: "w * h \<noteq> 0" by auto
  define data where "data = bytes_of_pixels buf"
  have ld: "length data = 4 * length buf" by (simp add: data_def length_bytes_of_pixels)
  have cnt: "nat (4 * sint (w * h)) = length data" using len ld by simp
  define fbytes where
    "fbytes = bytes_of_Sint32 4 @ bytes_of_Sint32 w @ bytes_of_Sint32 h @ data"
  define fs' where "fs' = fs\<lparr>files := (files fs)(pFile \<mapsto> fbytes)\<rparr>"
  have save: "Save fs img pFile = Some (True, fs', None)"
    using nz ro buf len ld cnt
    by (simp add: Save_def Let_def w_def[symmetric] h_def[symmetric] data_def[symmetric]
        fs'_def fbytes_def)
  define f0 where "f0 = \<lparr>content = fbytes, gpos = 0, failbit = False\<rparr>"
  have op: "ifstream_open fs' pFile = Some f0"
    by (simp add: ifstream_open_def fs'_def f0_def)
  have r1: "read_Sint32 f0 0 = (4, f0\<lparr>gpos := 4\<rparr>)"
    using read_Sint32_at[of f0 4 "bytes_of_Sint32 w @ bytes_of_Sint32 h @ data" 0]
    by (simp add: f0_def fbytes_def)
  have r2: "read_Sint32 (f0\<lparr>gpos := 4\<rparr>) a = (w, f0\<lparr>gpos := 8\<rparr>)" for a
    using read_Sint32_at[of "f0\<lparr>gpos := 4\<rparr>" w "bytes_of_Sint32 h @ data" a]
    by (simp add: f0_def fbytes_def length_bytes_of_Sint32)
  have r3: "read_Sint32 (f0\<lparr>gpos := 8\<rparr>) a = (h, f0\<lparr>gpos := 12\<rparr>)" for a
    using read_Sint32_at[of "f0\<lparr>gpos := 8\<rparr>" h data a]
    by (simp add: f0_def fbytes_def length_bytes_of_Sint32)
  define zeros where "zeros = replicate (length buf) Color32_zero"
  define img' where "img' = \<lparr>pixels = Some zeros, width = w, height = h\<rparr>"
  have n: "nat (sint (w * h)) = length buf" using len by simp
  have cr: "Create heap (img2\<lparr>width := w, height := h\<rparr>) w h = (True, img', None)"
    using d pos heap
    by (simp add: Create_def Let_def Free_def IsGood_def img'_def zeros_def n)
  have r4: "stream_read (f0\<lparr>gpos := 12\<rparr>) (length data) = (data, f0\<lparr>gpos := 12 + length data\<rparr>)"
    by (simp add: stream_read_def f0_def fbytes_def length_bytes_of_Sint32 Let_def)
  have st: "store data (bytes_of_pixels zeros) = data"
    by (rule store_full) (simp add: length_bytes_of_pixels ld zeros_def)
  have "Load heap fs' img2 pFile = (True, \<lparr>pixels = Some buf, width = w, height = h\<rparr>, None)"
    by (simp add: Load_def op r1 r2 r3 cr img'_def[symmetric])
       (simp add: img'_def cnt[unfolded data_def] r4[unfolded data_def] st[unfolded data_def]
          Let_def IsGood_def pixels_bytes_roundtrip)
  moreover have "\<lparr>pixels = Some buf, width = w, height = h\<rparr> = img"
    using buf by (simp add: w_def h_def)
  ultimately show ?thesis using save by simp
qed


text \<open>
  An image of 2 by 1 pixels with the colours (1, 2, 3, 4) and (5, 6, 7, 8), saved to
  \<open>a.img\<close> on an empty disk and loaded from there into an empty image. The file holds
  the type size 4, the width 2, the height 1 and the two pixels in the byte order
  blue, green, red, alpha.
\<close>

theorem Save_Load_roundtrip_witness:
  "wf_image \<lparr>pixels = Some [Color32_rgba 1 2 3 4, Color32_rgba 5 6 7 8], width = 2, height = 1\<rparr>
   \<and> \<not> readonly empty_disk ''a.img''
   \<and> unlimited_heap (length [Color32_rgba 1 2 3 4, Color32_rgba 5 6 7 8])
   \<and> Save empty_disk
        \<lparr>pixels = Some [Color32_rgba 1 2 3 4, Color32_rgba 5 6 7 8], width = 2, height = 1\<rparr> ''a.img''
      = Some (True, disk_with ''a.img'' [4, 0, 0, 0, 2, 0, 0, 0, 1, 0, 0, 0, 3, 2, 1, 4, 7, 6, 5, 8], None)
   \<and> Load unlimited_heap
        (disk_with ''a.img'' [4, 0, 0, 0, 2, 0, 0, 0, 1, 0, 0, 0, 3, 2, 1, 4, 7, 6, 5, 8])
        \<lparr>pixels = None, width = 0, height = 0\<rparr> ''a.img''
      = (True, \<lparr>pixels = Some [Color32_rgba 1 2 3 4, Color32_rgba 5 6 7 8], width = 2, height = 1\<rparr>,
         None)"
proof -
  define img where
    "img = \<lparr>pixels = Some [Color32_rgba 1 2 3 4, Color32_rgba 5 6 7 8], width = 2, height = 1\<rparr>"
  define bytes :: "Uint8 list" where
    "bytes = [4, 0, 0, 0, 2, 0, 0, 0, 1, 0, 0, 0, 3, 2, 1, 4, 7, 6, 5, 8]"
  have wf: "wf_image img"
    by (simp add: img_def wf_image_def MaxDimension_def word_sless_alt word_sle_eq)
  have px: "pixels img = Some [Color32_rgba 1 2 3 4, Color32_rgba 5 6 7 8]" by (simp add: img_def)
  have ro: "\<not> readonly empty_disk ''a.img''" by (simp add: empty_disk_def)
  have hp: "unlimited_heap (length [Color32_rgba 1 2 3 4, Color32_rgba 5 6 7 8])"
    by (simp add: unlimited_heap_def)
  have sv: "Save empty_disk img ''a.img''
      = Some (True, empty_disk\<lparr>files := (files empty_disk)(''a.img'' \<mapsto> bytes)\<rparr>, None)"
    by (simp add: Save_def img_def empty_disk_def Let_def bytes_def bytes_of_pixels_def
        bytes_of_Color32_def bytes_of_Sint32_def Color32_rgba_def)
  have dk: "empty_disk\<lparr>files := (files empty_disk)(''a.img'' \<mapsto> bytes)\<rparr> = disk_with ''a.img'' bytes"
    by (simp add: empty_disk_def disk_with_def fun_eq_iff)
  from Save_Load_roundtrip[of img "[Color32_rgba 1 2 3 4, Color32_rgba 5 6 7 8]" empty_disk "''a.img''"
      unlimited_heap "\<lparr>pixels = None, width = 0, height = 0\<rparr>", OF wf px ro hp]
  obtain fs' where "Save empty_disk img ''a.img'' = Some (True, fs', None)"
    and "Load unlimited_heap fs' \<lparr>pixels = None, width = 0, height = 0\<rparr> ''a.img'' = (True, img, None)"
    by blast
  then have "Load unlimited_heap (disk_with ''a.img'' bytes) \<lparr>pixels = None, width = 0, height = 0\<rparr> ''a.img''
      = (True, img, None)"
    using sv dk by simp
  then show ?thesis using wf ro hp sv dk by (simp add: img_def bytes_def)
qed

lemma Stream_Load_after_Save:
  assumes "Save fs img pFile = Some (True, fs', m)"
  shows "Stream_Load fs' s pFile
           = (True, s\<lparr>s_width := 4, s_height := width img, s_file := pFile, dataStart := 8\<rparr>)"
proof -
  obtain buf where buf: "pixels img = Some buf"
    using assms by (cases "pixels img") (auto simp: Save_def split: if_splits)
  define rest where "rest = bytes_of_Sint32 (height img)
      @ take (nat (4 * sint (width img * height img))) (bytes_of_pixels buf)"
  have fs': "files fs' pFile = Some (bytes_of_Sint32 4 @ bytes_of_Sint32 (width img) @ rest)"
    using assms buf by (auto simp: Save_def Let_def rest_def split: if_splits)
  define f0 where "f0 = \<lparr>content = bytes_of_Sint32 4 @ bytes_of_Sint32 (width img) @ rest,
      gpos = 0, failbit = False\<rparr>"
  have op: "ifstream_open fs' pFile = Some f0" by (simp add: ifstream_open_def fs' f0_def)
  have r1: "read_Sint32 f0 a = (4, f0\<lparr>gpos := 4\<rparr>)" for a
    using read_Sint32_at[of f0 4 "bytes_of_Sint32 (width img) @ rest" a] by (simp add: f0_def)
  have r2: "read_Sint32 (f0\<lparr>gpos := 4\<rparr>) a = (width img, f0\<lparr>gpos := 8\<rparr>)" for a
    using read_Sint32_at[of "f0\<lparr>gpos := 4\<rparr>" "width img" rest a]
    by (simp add: f0_def length_bytes_of_Sint32)
  show ?thesis by (simp add: Stream_Load_def op r1 r2)
qed

text \<open>
  C1 fails on the code. \<open>Save\<close> writes the type size, the width, the height and then
  the pixels, so the first pixel record is at byte 12; \<open>Stream::Load\<close> reads its width
  and height from bytes 0 to 7 and sets \<open>dataStart\<close> to 8. For the image of 2 by 1
  pixels below, the stream handle reports width 4 (the type size), height 2 (the width)
  and data start 8.
\<close>

theorem Stream_Load_misreads_header:
  "Save \<lparr>files = (\<lambda>p. None), readonly = (\<lambda>p. False)\<rparr>
        \<lparr>pixels = Some [Color32_rgba 1 2 3 4, Color32_rgba 5 6 7 8], width = 2, height = 1\<rparr>
        ''a.img''
     = Some (True,
             \<lparr>files = (\<lambda>p. None)(''a.img'' \<mapsto>
                [4, 0, 0, 0, 2, 0, 0, 0, 1, 0, 0, 0, 3, 2, 1, 4, 7, 6, 5, 8]),
              readonly = (\<lambda>p. False)\<rparr>,
             None)
   \<and> Stream_Load \<lparr>files = (\<lambda>p. None)(''a.img'' \<mapsto>
                       [4, 0, 0, 0, 2, 0, 0, 0, 1, 0, 0, 0, 3, 2, 1, 4, 7, 6, 5, 8]),
                     readonly = (\<lambda>p. False)\<rparr>
                   \<lparr>s_width = 0, s_height = 0, s_file = [], dataStart = 0\<rparr> ''a.img''
     = (True, \<lparr>s_width = 4, s_height = 2, s_file = ''a.img'', dataStart = 8\<rparr>)"
proof -
  have s: "Save \<lparr>files = (\<lambda>p. None), readonly = (\<lambda>p. False)\<rparr>
        \<lparr>pixels = Some [Color32_rgba 1 2 3 4, Color32_rgba 5 6 7 8], width = 2, height = 1\<rparr>
        ''a.img''
     = Some (True,
             \<lparr>files = (\<lambda>p. None)(''a.img'' \<mapsto>
                [4, 0, 0, 0, 2, 0, 0, 0, 1, 0, 0, 0, 3, 2, 1, 4, 7, 6, 5, 8]),
              readonly = (\<lambda>p. False)\<rparr>,
             None)"
    by (simp add: Save_def Let_def bytes_of_pixels_def bytes_of_Color32_def Color32_rgba_def
        bytes_of_Sint32_def)
  show ?thesis using s Stream_Load_after_Save[OF s] by simp
qed

section \<open>Properties of Blit from an image\<close>

lemma sint_diff_exact:
  fixes p a :: Sint32
  assumes "- (2 ^ 31) \<le> sint p - sint a" "sint p - sint a < 2 ^ 31"
  shows "sint (p - a) = sint p - sint a"
  using assms by (simp add: sint_word_diff signed_take_bit_int_eq_self)

lemma flip_clip_sint:
  assumes "flip_clip d1 d2 c1 c2 dc = (a, b, c)"
  shows "sint a = max 0 (min (sint d1) (sint d2))" "sint b = max (sint d1) (sint d2)"
  using assms
  by (auto simp: flip_clip_def word_sless_alt split: if_splits)

lemma span_outside:
  fixes W a b d1 d2 :: Sint32
  assumes a: "sint a = max 0 (min (sint d1) (sint d2))" and b: "sint b = max (sint d1) (sint d2)"
    and W: "0 \<le> sint W"
    and out: "sint d1 \<le> 0 \<and> sint d2 \<le> 0 \<or> sint W \<le> sint d1 \<and> sint W \<le> sint d2"
  shows "sint ((if W <s b then W else b) - a) \<le> 0"
proof -
  define e where "e = (if W <s b then W else b)"
  have e: "sint e = min (sint W) (sint b)" by (auto simp: e_def word_sless_alt)
  have le: "sint e \<le> sint a" using out a b W e by auto
  have "0 \<le> sint a" using a by simp
  moreover have "sint a < 2 ^ 31" using sint_lt[of a] by simp
  moreover have "- (2 ^ 31) \<le> sint e" using sint_ge[of e] by simp
  moreover have "sint e < 2 ^ 31" using sint_lt[of e] by simp
  moreover have "0 \<le> sint e \<or> sint a = 0" using out a b W e by auto
  ultimately have "sint (e - a) = sint e - sint a" by (intro sint_diff_exact) auto
  then show ?thesis using le by (simp add: e_def)
qed

lemma scan_rows_no_columns:
  "scan_rows pBlend pSample pSrc du dv pDx1 0 w u1 m v dpix buf = Some buf"
  by (induction m arbitrary: v dpix) simp_all

text \<open>
  C7. For every good source image and every good destination image of non-negative
  extent, a blit whose destination rectangle lies entirely outside the canvas returns
  the destination unchanged and sets no error message, whatever the blender, the
  sampler and the source rectangle.
\<close>

theorem Blit_outside_canvas:
  assumes "IsGood pSrc" and "IsGood pDst" and "0 \<le>s width pDst" and "0 \<le>s height pDst"
    and "outside_canvas pDst pDx1 pDy1 pDx2 pDy2"
  shows "Blit pDst pDx1 pDy1 pDx2 pDy2 pSrc pBlend pSample pSx1 pSy1 pSx2 pSy2 = Some (pDst, None)"
proof -
  obtain buf where buf: "pixels pDst = Some buf" using assms(2) by (auto simp: IsGood_def)
  have good: "\<not> (IsBad pSrc \<or> IsBad pDst)" using assms(1,2) by (simp add: IsGood_def IsBad_def)
  define sx1 where "sx1 = (if pSx1 <s 0 then 0 else pSx1)"
  define sy1 where "sy1 = (if pSy1 <s 0 then 0 else pSy1)"
  define sx2 where "sx2 = (if width pSrc <s pSx2 then width pSrc else pSx2)"
  define sy2 where "sy2 = (if height pSrc <s pSy2 then height pSrc else pSy2)"
  define u1 where "u1 = fdiv (float_of_Sint32 sx1) (float_of_Sint32 (width pSrc - 1))"
  define v1 where "v1 = fdiv (float_of_Sint32 sy1) (float_of_Sint32 (height pSrc - 1))"
  define u2 where "u2 = fdiv (float_of_Sint32 sx2) (float_of_Sint32 (width pSrc - 1))"
  define v2 where "v2 = fdiv (float_of_Sint32 sy2) (float_of_Sint32 (height pSrc - 1))"
  define du where "du = fdiv (fsub u2 u1) (float_of_Sint32 (pDx2 - pDx1))"
  define dv where "dv = fdiv (fsub v2 v1) (float_of_Sint32 (pDy2 - pDy1))"
  obtain ax bx cx where fx: "flip_clip pDx1 pDx2 u1 u2 du = (ax, bx, cx)"
    by (cases "flip_clip pDx1 pDx2 u1 u2 du") auto
  obtain ay "by" cy where fy: "flip_clip pDy1 pDy2 v1 v2 dv = (ay, by, cy)"
    by (cases "flip_clip pDy1 pDy2 v1 v2 dv") auto
  define MAXX where "MAXX = (if width pDst <s bx then width pDst else bx) - ax"
  define MAXY where "MAXY = (if height pDst <s by then height pDst else by) - ay"
  have W: "0 \<le> sint (width pDst)" "0 \<le> sint (height pDst)"
    using assms(3,4) by (simp_all add: word_sle_eq)
  have "sint MAXX \<le> 0 \<or> sint MAXY \<le> 0"
    using assms(5) span_outside[OF flip_clip_sint[OF fx] W(1)]
      span_outside[OF flip_clip_sint[OF fy] W(2)]
    unfolding outside_canvas_def MAXX_def MAXY_def word_sle_eq by auto
  then consider "MAXX <s 0 \<or> MAXY <s 0" | "sint MAXX = 0" "\<not> MAXY <s 0" | "sint MAXY = 0" "\<not> MAXX <s 0"
    unfolding word_sless_alt sint_0 by linarith
  then have "(if MAXX <s 0 \<or> MAXY <s 0 then Some (pDst, None)
      else (case scan_rows pBlend pSample pSrc du dv ax (nat (sint MAXX)) (sint (width pDst)) cx
                   (nat (sint MAXY)) cy (sint (width pDst * ay)) buf of
              None \<Rightarrow> None
            | Some buf' \<Rightarrow> Some (pDst\<lparr>pixels := Some buf'\<rparr>, None))) = Some (pDst, None)"
  proof cases
    case 1 then show ?thesis by simp
  next
    case 2 then show ?thesis using buf by (simp add: scan_rows_no_columns)
  next
    case 3 then show ?thesis using buf by simp
  qed
  moreover have "Blit pDst pDx1 pDy1 pDx2 pDy2 pSrc pBlend pSample pSx1 pSy1 pSx2 pSy2 =
     (if MAXX <s 0 \<or> MAXY <s 0 then Some (pDst, None)
      else (case scan_rows pBlend pSample pSrc du dv ax (nat (sint MAXX)) (sint (width pDst)) cx
                   (nat (sint MAXY)) cy (sint (width pDst * ay)) buf of
              None \<Rightarrow> None
            | Some buf' \<Rightarrow> Some (pDst\<lparr>pixels := Some buf'\<rparr>, None)))"
    by (simp only: Blit_def Let_def good if_False sx1_def[symmetric] sy1_def[symmetric]
        sx2_def[symmetric] sy2_def[symmetric] u1_def[symmetric] v1_def[symmetric]
        u2_def[symmetric] v2_def[symmetric] du_def[symmetric] dv_def[symmetric]
        fx fy prod.case MAXX_def[symmetric] MAXY_def[symmetric] buf option.case)
  ultimately show ?thesis by simp
qed

text \<open>A destination of 2 by 1 pixels and the rectangle of columns 5 to 9.\<close>

theorem Blit_outside_canvas_witness:
  "IsGood \<lparr>pixels = Some [Color32_rgb 1 2 3], width = 1, height = 1\<rparr>
   \<and> IsGood \<lparr>pixels = Some [Color32_zero, Color32_zero], width = 2, height = 1\<rparr>
   \<and> 0 \<le>s width \<lparr>pixels = Some [Color32_zero, Color32_zero], width = 2, height = 1\<rparr>
   \<and> 0 \<le>s height \<lparr>pixels = Some [Color32_zero, Color32_zero], width = 2, height = 1\<rparr>
   \<and> outside_canvas \<lparr>pixels = Some [Color32_zero, Color32_zero], width = 2, height = 1\<rparr> 5 0 9 1
   \<and> Blit \<lparr>pixels = Some [Color32_zero, Color32_zero], width = 2, height = 1\<rparr> 5 0 9 1
          \<lparr>pixels = Some [Color32_rgb 1 2 3], width = 1, height = 1\<rparr> Assign Nearest
          0 0 MaxDimension MaxDimension
     = Some (\<lparr>pixels = Some [Color32_zero, Color32_zero], width = 2, height = 1\<rparr>, None)"
  using Blit_outside_canvas[of "\<lparr>pixels = Some [Color32_rgb 1 2 3], width = 1, height = 1\<rparr>"
      "\<lparr>pixels = Some [Color32_zero, Color32_zero], width = 2, height = 1\<rparr>" 5 0 9 1
      Assign Nearest 0 0 MaxDimension MaxDimension]
  by (simp add: IsGood_def outside_canvas_def word_sle_eq)

text \<open>
  C10. Whenever the source or the destination image is bad, the in-memory blit returns
  the destination as it was together with the message "Blit: Bad source/destination":
  the result is the same for every blender and every sampler, also for those whose
  every call is undefined, so none is invoked and no pixel is read or written.
\<close>

theorem Blit_bad_returns_at_once:
  "IsBad pSrc \<or> IsBad pDst \<Longrightarrow>
   Blit pDst pDx1 pDy1 pDx2 pDy2 pSrc pBlend pSample pSx1 pSy1 pSx2 pSy2
     = Some (pDst, Some Blit_bad_source_destination)"
  by (simp add: Blit_def)


text \<open>A bad source, with a blender and a sampler that must not be called.\<close>

theorem Blit_bad_returns_at_once_witness:
  "(IsBad \<lparr>pixels = None, width = 0, height = 0\<rparr>
      \<or> IsBad \<lparr>pixels = Some [Color32_zero], width = 1, height = 1\<rparr>)
   \<and> Blit \<lparr>pixels = Some [Color32_zero], width = 1, height = 1\<rparr> 0 0 1 1
          \<lparr>pixels = None, width = 0, height = 0\<rparr> undefined_Blender undefined_Sampler
          0 0 MaxDimension MaxDimension
     = Some (\<lparr>pixels = Some [Color32_zero], width = 1, height = 1\<rparr>,
             Some Blit_bad_source_destination)"
  using Blit_bad_returns_at_once[of "\<lparr>pixels = None, width = 0, height = 0\<rparr>"
      "\<lparr>pixels = Some [Color32_zero], width = 1, height = 1\<rparr>" 0 0 1 1
      undefined_Blender undefined_Sampler 0 0 MaxDimension MaxDimension]
  by (simp add: IsBad_def)

text \<open>
  C3 fails on the code. With the source of 2 by 1 pixels \<open>[A, B]\<close> and the reversed
  columns \<open>pDx1 = 2\<close>, \<open>pDx2 = 0\<close>, the blit has no defined result: \<open>v1\<close> is the quotient
  of 0 by \<open>height - 1 = 0\<close>, a NaN, which \<open>Nearest\<close> casts to \<open>Sint32\<close>; and the mirrored
  traversal starts at \<open>u2 = 2 / (width - 1) = 2\<close>, that is at column 2, one past the
  last column of the source.
\<close>

theorem Blit_reversed_2x1_undefined:
  "Blit_default \<lparr>pixels = Some [Color32_zero, Color32_zero, Color32_zero,
                                 Color32_zero, Color32_zero, Color32_zero],
                 width = 3, height = 2\<rparr> 2 0 0 1
     \<lparr>pixels = Some [Color32_rgb 10 20 30, Color32_rgb 40 50 60], width = 2, height = 1\<rparr>
     0 0 MaxDimension MaxDimension
   = None"
  by code_simp

text \<open>
  The shift by one column alone, on a source of 2 by 2 pixels \<open>[A, B]\<close>, \<open>[C, D]\<close> whose
  first row is blitted: the reversed blit writes \<open>[C, B]\<close>, where \<open>C\<close> is the pixel that
  follows \<open>B\<close> in the array, and not \<open>[B, A]\<close>; the same blit with the columns in
  order writes \<open>[A, B]\<close>.
\<close>

lemma Blit_reversed_2x2_first_row:
  "Blit_default \<lparr>pixels = Some [Color32_zero, Color32_zero], width = 2, height = 1\<rparr> 2 0 0 1
     \<lparr>pixels = Some [Color32_rgb 10 20 30, Color32_rgb 40 50 60,
                      Color32_rgb 70 80 90, Color32_rgb 1 2 3], width = 2, height = 2\<rparr>
     0 0 MaxDimension 1
   = Some (\<lparr>pixels = Some [Color32_rgb 70 80 90, Color32_rgb 40 50 60], width = 2, height = 1\<rparr>,
           None)"
  by code_simp

lemma Blit_forward_2x2_first_row:
  "Blit_default \<lparr>pixels = Some [Color32_zero, Color32_zero], width = 2, height = 1\<rparr> 0 0 2 1
     \<lparr>pixels = Some [Color32_rgb 10 20 30, Color32_rgb 40 50 60,
                      Color32_rgb 70 80 90, Color32_rgb 1 2 3], width = 2, height = 2\<rparr>
     0 0 MaxDimension 1
   = Some (\<lparr>pixels = Some [Color32_rgb 10 20 30, Color32_rgb 40 50 60], width = 2, height = 1\<rparr>,
           None)"
  by code_simp

section \<open>Properties of Blit from a stream\<close>




lemma short_read_fails:
  assumes "\<not> failbit fin" "length (drop (gpos fin) (content fin)) < n"
  shows "failbit (snd (stream_read fin n))"
  using assms by (simp add: stream_read_def Let_def)

















text \<open>The stream handle of that blit is the one \<open>Stream::Load\<close> gives for the file.\<close>

lemma Stream_Load_truncated_file:
  "Stream_Load (disk_with ''s.img'' [1, 0, 0, 0, 2, 0, 0, 0, 30, 20, 10, 255])
     \<lparr>s_width = 0, s_height = 0, s_file = [], dataStart = 0\<rparr> ''s.img''
   = (True, \<lparr>s_width = 1, s_height = 2, s_file = ''s.img'', dataStart = 8\<rparr>)"
  by code_simp

text \<open>
  The blit of a stream of 1 by 3 pixels from a file that ends after its first pixel:
  all three rows of the destination receive that pixel. Its row loop starts with
  three rows, the stream at byte 0 and a zeroed row buffer, and after row 0 goes on
  as the loop with two rows to go that is used as the example of a failing read above.
\<close>

lemma Blit_stream_truncated_three_rows:
  "Blit_stream unlimited_heap (disk_with ''s.img'' [1, 0, 0, 0, 3, 0, 0, 0, 30, 20, 10, 255])
     \<lparr>pixels = Some [Color32_zero, Color32_zero, Color32_zero], width = 1, height = 3\<rparr> 0 0 1 3
     \<lparr>s_width = 1, s_height = 3, s_file = ''s.img'', dataStart = 8\<rparr> Assign
     0 0 MaxDimension MaxDimension
   = Some (True, \<lparr>pixels = Some [Color32_rgb 10 20 30, Color32_rgb 10 20 30, Color32_rgb 10 20 30],
                  width = 1, height = 3\<rparr>)"
  by code_simp

lemma truncated_three_rows_after_row_0:
  "stream_rows Assign
       \<lparr>SCALEX = 65536, SCALEY = 65536, SX = 0, SY = 0, SY1 = 0, SrcXByteRead = 4,
        SrcByteWidth = 4, SrcXOffset = 8, DX1 = 0, MAXX = 1, DST_WIDTH = 1\<rparr>
       (Suc (Suc (Suc 0))) 0 0
       \<lparr>content = [1, 0, 0, 0, 3, 0, 0, 0, 30, 20, 10, 255], gpos = 0, failbit = False\<rparr>
       (bytes_of_pixels [Color32_zero]) [Color32_zero, Color32_zero, Color32_zero]
   = stream_rows Assign
       \<lparr>SCALEX = 65536, SCALEY = 65536, SX = 0, SY = 0, SY1 = 0, SrcXByteRead = 4,
        SrcByteWidth = 4, SrcXOffset = 8, DX1 = 0, MAXX = 1, DST_WIDTH = 1\<rparr>
       (Suc (Suc 0)) 1 1
       \<lparr>content = [1, 0, 0, 0, 3, 0, 0, 0, 30, 20, 10, 255], gpos = 12, failbit = False\<rparr>
       [30, 20, 10, 255] [Color32_rgb 10 20 30, Color32_zero, Color32_zero]"
  by code_simp

section \<open>The multiplication table and the colour operators\<close>

lemma rnd_ratio_255:
  assumes j: "1 \<le> j" "j \<le> 254"
  shows "rat_of_nat j / 255 \<le> rnd (rat_of_nat j / 255)"
    and "rnd (rat_of_nat j / 255) \<le> rat_of_nat j / 255 + 1 / 2 ^ 24"
proof -
  define x where "x = rat_of_nat j / 255"
  have x0: "0 < x" and x1: "x < 1" using j by (simp_all add: x_def)
  have xl: "1 / 255 \<le> x" using j by (simp add: x_def)
  define e where "e = ilog2 x"
  note b = ilog2_bounds[OF x0, folded e_def]
  have e_neg: "e < 0"
  proof (rule ccontr)
    assume "\<not> e < 0"
    then have "pow2 0 \<le> pow2 e" by (intro pow2_mono) simp
    then show False using b x1 by (simp add: pow2_def)
  qed
  have e_low: "- 8 \<le> e"
  proof (rule ccontr)
    assume "\<not> - 8 \<le> e"
    then have "pow2 (e + 1) \<le> pow2 (- 8)" by (intro pow2_mono) simp
    then show False using b xl by (simp add: pow2_def)
  qed
  define k where "k = nat (- e)"
  have k: "1 \<le> k" "k \<le> 8" "e = - int k" using e_neg e_low by (simp_all add: k_def)
  have pe: "pow2 e = 1 / 2 ^ k" using k by (simp add: pow2_def)
  have pe1: "pow2 (e + 1) = 1 / 2 ^ (k - 1)"
  proof (cases "k = 1")
    case True then show ?thesis using k by (simp add: pow2_def)
  next
    case False
    then have "nat (int k - 1) = k - 1" "\<not> (0 \<le> - int k + 1)" using k by auto
    then show ?thesis using k by (simp add: pow2_def)
  qed
  have u: "ulp x = 1 / 2 ^ (k + 23)"
  proof -
    have "max (ilog2 \<bar>x\<bar>) (- 126) - 23 = - int (k + 23)"
      using x0 e_low k by (simp add: e_def[symmetric])
    then show ?thesis by (simp add: ulp_def pow2_def)
  qed
  define A where "A = j * 2 ^ (k - 1)"
  have "1 / 2 ^ k \<le> rat_of_nat j / 255" using b pe by (simp add: x_def)
  then have "(255::rat) \<le> rat_of_nat j * 2 ^ k" by (simp add: field_simps)
  then have "rat_of_nat 255 \<le> rat_of_nat (j * 2 ^ k)" by simp
  then have "255 \<le> j * 2 ^ k" by (simp only: of_nat_le_iff)
  moreover have "j * 2 ^ k = 2 * A" using k by (cases k) (simp_all add: A_def)
  ultimately have A_lo: "128 \<le> A" by simp
  have "rat_of_nat j / 255 < 1 / 2 ^ (k - 1)" using b pe1 by (simp add: x_def)
  then have "rat_of_nat j * 2 ^ (k - 1) < 255" by (simp add: field_simps)
  then have "rat_of_nat A < rat_of_nat 255" by (simp add: A_def)
  then have A_hi: "A < 255" by (simp only: of_nat_less_iff)
  have "k + 23 = (k - 1) + 24" using k by simp
  then have "(2::nat) ^ (k + 23) = 2 ^ (k - 1) * 2 ^ 24" by (simp only: power_add)
  then have "j * 2 ^ (k + 23) = A * 2 ^ 24" by (simp add: A_def)
  also have "\<dots> = 255 * (65793 * A) + A" by simp
  finally have jA: "j * 2 ^ (k + 23) = 255 * (65793 * A) + A" .
  have "x / ulp x = x * 2 ^ (k + 23)" by (simp add: u)
  also have "\<dots> = rat_of_nat (j * 2 ^ (k + 23)) / 255" by (simp add: x_def)
  also have "\<dots> = rat_of_nat (65793 * A) + rat_of_nat A / 255" by (simp only: jA) simp
  finally have xu: "x / ulp x = rat_of_int (int (65793 * A)) + rat_of_nat A / 255" by simp
  have fr: "1 / 2 < rat_of_nat A / 255" "rat_of_nat A / 255 < 1"
    using A_lo A_hi by simp_all
  have fl: "\<lfloor>x / ulp x\<rfloor> = int (65793 * A)"
    unfolding xu using fr by (simp add: floor_unique)
  have "rne (x / ulp x) = int (65793 * A) + 1"
    using fr unfolding rne_def Let_def fl by (simp add: xu)
  then have r: "rnd x = (rat_of_int (int (65793 * A)) + 1) * ulp x"
    using x0 by (simp add: rnd_def)
  have up: "0 < ulp x" by (rule ulp_pos)
  have xx: "x = (rat_of_int (int (65793 * A)) + rat_of_nat A / 255) * ulp x"
    using xu up by (simp add: field_simps)
  have "x \<le> rnd x"
  proof -
    have "(rat_of_int (int (65793 * A)) + rat_of_nat A / 255) * ulp x
          \<le> (rat_of_int (int (65793 * A)) + 1) * ulp x"
      using fr up by (intro mult_right_mono) simp_all
    then show ?thesis using xx r by simp
  qed
  moreover have "rnd x \<le> x + 1 / 2 ^ 24"
  proof -
    have "rnd x - x = (1 - rat_of_nat A / 255) * ulp x"
      by (subst (2) xx) (simp add: r algebra_simps)
    also have "\<dots> \<le> 1 * ulp x" using fr up by (intro mult_right_mono) simp_all
    also have "ulp x \<le> 1 / 2 ^ 24"
    proof -
      have "(2::rat) ^ 24 \<le> 2 ^ (k + 23)" using k by (intro power_increasing) simp_all
      then show ?thesis unfolding u by (simp add: field_simps)
    qed
    finally show ?thesis by simp
  qed
  ultimately show "rat_of_nat j / 255 \<le> rnd (rat_of_nat j / 255)"
    and "rnd (rat_of_nat j / 255) \<le> rat_of_nat j / 255 + 1 / 2 ^ 24"
    by (simp_all add: x_def)
qed


lemma rnd_ratio_255_all:
  assumes "j \<le> 255"
  shows "rat_of_nat j / 255 \<le> rnd (rat_of_nat j / 255)
       \<and> rnd (rat_of_nat j / 255) \<le> rat_of_nat j / 255 + 1 / 2 ^ 24"
proof -
  consider "j = 0" | "j = 255" | "1 \<le> j" "j \<le> 254" using assms by linarith
  then show ?thesis
  proof cases
    case 1 then show ?thesis by (simp add: rnd_zero)
  next
    case 2 then show ?thesis using rnd_of_nat[of 1] by simp
  next
    case 3 then show ?thesis using rnd_ratio_255[OF 3] by simp
  qed
qed

lemma modulate_entry:
  assumes i: "i \<le> 255" and j: "j \<le> 255"
  shows "Uint8_of_float (fmul (Fin (of_nat i)) (fdiv (Fin (of_nat j)) (Fin 255)))
           = Some (of_nat (i * j div 255))"
proof -
  define x where "x = rat_of_nat j / 255"
  define q where "q = rnd x"
  have x: "0 \<le> x" "x \<le> 1" using j by (simp_all add: x_def)
  have q: "x \<le> q" "q \<le> x + 1 / 2 ^ 24"
    using rnd_ratio_255_all[OF j] by (simp_all add: q_def x_def)
  have d: "fdiv (Fin (of_nat j)) (Fin 255) = Fin q"
    using round32_Fin[of x] x by (simp add: q_def x_def)
  define p where "p = rat_of_nat i * q"
  define n where "n = i * j div 255"
  define r where "r = i * j mod 255"
  have ij: "i * j = 255 * n + r" and r: "r \<le> 254"
    using mod_less_divisor[of 255 "i * j"] by (simp_all add: n_def r_def)
  have "rat_of_nat i \<le> rat_of_nat 255" using i by (simp only: of_nat_le_iff)
  then have ri: "0 \<le> rat_of_nat i" "rat_of_nat i \<le> 255" by simp_all
  have ix: "rat_of_nat i * x = rat_of_nat n + rat_of_nat r / 255"
  proof -
    have "rat_of_nat i * x = rat_of_nat (i * j) / 255" by (simp add: x_def)
    also have "\<dots> = rat_of_nat n + rat_of_nat r / 255" by (simp only: ij) simp
    finally show ?thesis .
  qed
  have rr: "0 \<le> rat_of_nat r / 255" "rat_of_nat r / 255 \<le> 254 / 255"
  proof -
    have "rat_of_nat r \<le> rat_of_nat 254" using r by (simp only: of_nat_le_iff)
    then show "rat_of_nat r / 255 \<le> 254 / 255" by simp
  qed simp
  have lo: "rat_of_nat n \<le> p"
  proof -
    have "rat_of_nat i * x \<le> rat_of_nat i * q" using q(1) ri by (intro mult_left_mono)
    then show ?thesis using ix rr by (simp add: p_def)
  qed
  have hi: "p \<le> rat_of_nat n + 1 - 1 / 1024"
  proof -
    have "rat_of_nat i * q \<le> rat_of_nat i * (x + 1 / 2 ^ 24)"
      using q(2) ri by (intro mult_left_mono)
    also have "\<dots> = rat_of_nat i * x + rat_of_nat i * (1 / 2 ^ 24)" by (simp add: algebra_simps)
    also have "rat_of_nat i * (1 / 2 ^ 24) \<le> 255 * (1 / 2 ^ 24)"
      using ri by (intro mult_right_mono) simp_all
    finally have "p \<le> rat_of_nat i * x + 255 * (1 / 2 ^ 24)" by (simp add: p_def)
    then show ?thesis using ix rr by simp
  qed
  have n255: "n \<le> 255"
  proof -
    have "i * j \<le> 255 * 255" using i j by (intro mult_le_mono)
    then show ?thesis by (simp add: n_def)
  qed
  then have "rat_of_nat n \<le> rat_of_nat 255" by (simp only: of_nat_le_iff)
  then have rn: "rat_of_nat n \<le> 255" by simp
  have p0: "0 \<le> p" using lo by (meson of_nat_0_le_iff order_trans)
  have p1: "p \<le> 65536" using hi rn by simp
  have m: "fmul (Fin (of_nat i)) (Fin q) = Fin (rnd p)"
    using round32_Fin[OF p0 p1] by (simp add: p_def)
  have "rnd (rat_of_nat n) \<le> rnd p" by (intro rnd_mono lo) simp
  then have g1: "rat_of_nat n \<le> rnd p" using rnd_of_nat[of n] n255 by simp
  define y where "y = rat_of_nat n + 1 - 1 / 1024"
  have yfix: "rnd y = y"
  proof -
    have "y = rat_of_int (int (1024 * n + 1023)) * pow2 (- 10)"
      by (simp add: y_def pow2_def field_simps)
    moreover have "int (1024 * n + 1023) < 2 ^ 24" using n255 by simp
    ultimately show ?thesis using rnd_fix[of "int (1024 * n + 1023)" "- 10"] by simp
  qed
  have "rnd p \<le> rnd y" using hi p0 by (intro rnd_mono) (simp_all add: y_def)
  then have g2: "rnd p < rat_of_nat n + 1" using yfix by (simp add: y_def)
  have fl: "\<lfloor>rnd p\<rfloor> = int n"
    using g1 g2 by (intro floor_unique) simp_all
  have "0 \<le> rnd p" using g1 by (meson of_nat_0_le_iff order_trans)
  then have "trunc_zero (rnd p) = int n" using fl by (simp add: trunc_zero_def)
  then have "Uint8_of_float (Fin (rnd p)) = Some (of_nat n)" using n255 by (simp add: Let_def)
  then show ?thesis by (simp only: d m n_def)
qed


lemma mul_cols_eq:
  "i \<le> 255 \<Longrightarrow>
   mul_cols r i j = Some (\<lambda>k. if j \<le> k \<and> k \<le> 255 then of_nat (i * k div 255) else r k)"
proof (induction r i j rule: mul_cols.induct)
  case (1 r i j)
  show ?case
  proof (cases "j \<le> 255")
    case True
    note e = modulate_entry[OF 1(2) True]
    have "mul_cols r i j = mul_cols (r(j := of_nat (i * j div 255))) i (j + 1)"
      using True e by (subst mul_cols.simps) simp
    also have "\<dots> = Some (\<lambda>k. if j + 1 \<le> k \<and> k \<le> 255 then of_nat (i * k div 255)
                              else (r(j := of_nat (i * j div 255))) k)"
      by (rule 1(1)[OF True e 1(2)])
    also have "\<dots> = Some (\<lambda>k. if j \<le> k \<and> k \<le> 255 then of_nat (i * k div 255) else r k)"
      using True by (auto simp: fun_eq_iff)
    finally show ?thesis .
  next
    case False
    then show ?thesis by (subst mul_cols.simps) (auto simp: fun_eq_iff)
  qed
qed

lemma mul_rows_eq:
  "mul_rows t i =
     Some (\<lambda>i' k. if i \<le> i' \<and> i' \<le> 255 \<and> k \<le> 255 then of_nat (i' * k div 255) else t i' k)"
proof (induction t i rule: mul_rows.induct)
  case (1 t i)
  show ?case
  proof (cases "i \<le> 255")
    case True
    define r where "r = (\<lambda>k. if 0 \<le> k \<and> k \<le> 255 then of_nat (i * k div 255) else t i k)"
    have c: "mul_cols (t i) i 0 = Some r" using mul_cols_eq[OF True, of "t i" 0] by (simp add: r_def)
    have "mul_rows t i = mul_rows (t(i := r)) (i + 1)"
      using True c by (subst mul_rows.simps) simp
    also have "\<dots> = Some (\<lambda>i' k. if i + 1 \<le> i' \<and> i' \<le> 255 \<and> k \<le> 255
                                 then of_nat (i' * k div 255) else (t(i := r)) i' k)"
      by (rule 1[OF True c])
    also have "\<dots> = Some (\<lambda>i' k. if i \<le> i' \<and> i' \<le> 255 \<and> k \<le> 255
                                 then of_nat (i' * k div 255) else t i' k)"
      using True by (auto simp: fun_eq_iff r_def)
    finally show ?thesis .
  next
    case False
    then show ?thesis by (subst mul_rows.simps) (auto simp: fun_eq_iff)
  qed
qed

lemma unat_Uint8_of_nat: "n \<le> 255 \<Longrightarrow> unat (of_nat n :: Uint8) = n"
  by (simp add: unsigned_of_nat take_bit_nat_eq_self)

lemma GfxInit_tables_entries:
  "\<exists>T. GfxInit_tables T0 = Some T
     \<and> u8chan_to_fchan T = fchan_loop (u8chan_to_fchan T0) 0
     \<and> (\<forall>i j. i \<le> 255 \<and> j \<le> 255 \<longrightarrow>
           unat (tableAdd T i j) = min 255 (i + j)
         \<and> int (unat (tableSub T i j)) = max 0 (int i - int j)
         \<and> unat (tableMul T i j) = i * j div 255)"
proof -
  define m where "m = (\<lambda>i' k. if 0 \<le> i' \<and> i' \<le> 255 \<and> k \<le> 255
      then (of_nat (i' * k div 255) :: Uint8) else tableMul T0 i' k)"
  define T where "T = T0\<lparr>tableAdd := add_rows (tableAdd T0) 0, tableSub := sub_rows (tableSub T0) 0,
      tableMul := m, u8chan_to_fchan := fchan_loop (u8chan_to_fchan T0) 0\<rparr>"
  have g: "GfxInit_tables T0 = Some T"
    using mul_rows_eq[of "tableMul T0" 0] by (simp add: GfxInit_tables_def Let_def T_def m_def)
  have "unat (tableAdd T i j) = min 255 (i + j)
      \<and> int (unat (tableSub T i j)) = max 0 (int i - int j)
      \<and> unat (tableMul T i j) = i * j div 255" if "i \<le> 255" "j \<le> 255" for i j
  proof -
    have a: "unat (tableAdd T i j) = min 255 (i + j)"
    proof (cases "j < 256 - i")
      case True
      then have "tableAdd T i j = of_nat (i + j)" using that by (simp add: T_def add_rows_eq)
      then show ?thesis using True unat_Uint8_of_nat[of "i + j"] by simp
    next
      case False
      then have "tableAdd T i j = 255" using that by (simp add: T_def add_rows_eq)
      then show ?thesis using False by simp
    qed
    have s: "int (unat (tableSub T i j)) = max 0 (int i - int j)"
    proof (cases "j \<le> i")
      case True
      then have "tableSub T i j = of_nat (i - j)" using that by (simp add: T_def sub_rows_eq)
      then show ?thesis using True that unat_Uint8_of_nat[of "i - j"] by simp
    next
      case False
      then have "tableSub T i j = 0" using that by (simp add: T_def sub_rows_eq)
      then show ?thesis using False by simp
    qed
    have "i * j \<le> 255 * 255" using that by (intro mult_le_mono)
    then have "i * j div 255 \<le> 255" by simp
    then have "unat (tableMul T i j) = i * j div 255"
      using that by (simp add: T_def m_def unat_Uint8_of_nat)
    then show ?thesis using a s by simp
  qed
  then show ?thesis using g by (intro exI[of _ T]) (simp add: T_def)
qed

text \<open>
  C2. The table construction of \<open>GfxInit\<close> is defined, and for all \<open>i\<close> and \<open>j\<close> from
  0 to 255 it leaves \<open>tableAdd[i][j] = min(255, i + j)\<close>, \<open>tableSub[i][j] = max(0, i - j)\<close>
  and \<open>tableMul[i][j] = floor(i * j / 255)\<close>; the last is computed in binary32 as
  \<open>(Uint8)(i * (j / 255))\<close>, where the quotient \<open>j / 255\<close> always rounds upwards
  (\<open>rnd_ratio_255\<close>). Hence \<open>+\<close>, \<open>-\<close> and \<open>*\<close> on \<open>Color32\<close> compute these formulas on
  each of the four channels, independently of the other channels.
\<close>

theorem GfxInit_tables_saturating:
  "\<exists>T. GfxInit_tables T0 = Some T
     \<and> (\<forall>i\<le>255. \<forall>j\<le>255.
           unat (tableAdd T i j) = min 255 (i + j)
         \<and> int (unat (tableSub T i j)) = max 0 (int i - int j)
         \<and> unat (tableMul T i j) = i * j div 255)
     \<and> (\<forall>ch\<in>{red, green, blue, alpha}. \<forall>pLeft pRight.
           unat (ch (color_add T pLeft pRight)) = min 255 (unat (ch pLeft) + unat (ch pRight))
         \<and> int (unat (ch (color_sub T pLeft pRight)))
             = max 0 (int (unat (ch pLeft)) - int (unat (ch pRight)))
         \<and> unat (ch (color_mul T pLeft pRight)) = unat (ch pLeft) * unat (ch pRight) div 255)"
proof -
  obtain T where g: "GfxInit_tables T0 = Some T"
    and e: "\<And>i j. i \<le> 255 \<Longrightarrow> j \<le> 255 \<Longrightarrow>
           unat (tableAdd T i j) = min 255 (i + j)
         \<and> int (unat (tableSub T i j)) = max 0 (int i - int j)
         \<and> unat (tableMul T i j) = i * j div 255"
    using GfxInit_tables_entries[of T0] by blast
  have b: "unat (c :: Uint8) \<le> 255" for c
    using unsigned_less[of c, where 'a = nat] by simp
  have "unat (ch (color_add T pLeft pRight)) = min 255 (unat (ch pLeft) + unat (ch pRight))
         \<and> int (unat (ch (color_sub T pLeft pRight)))
             = max 0 (int (unat (ch pLeft)) - int (unat (ch pRight)))
         \<and> unat (ch (color_mul T pLeft pRight)) = unat (ch pLeft) * unat (ch pRight) div 255"
    if "ch \<in> {red, green, blue, alpha}" for ch pLeft pRight
    using that e[OF b b]
    by (auto simp: color_add_def color_sub_def color_mul_def color_table_op_def)
  then show ?thesis using g e by blast
qed


text \<open>The entries for 200 and 100, and the red channel of two colours.\<close>

theorem GfxInit_tables_saturating_witness:
  "\<exists>T. GfxInit_tables static_Tables = Some T
     \<and> (200::nat) \<le> 255 \<and> (100::nat) \<le> 255
     \<and> unat (tableAdd T 200 100) = 255
     \<and> int (unat (tableSub T 100 200)) = 0
     \<and> unat (tableMul T 200 100) = 78
     \<and> red \<in> {red, green, blue, alpha}
     \<and> unat (red (color_add T (Color32_rgba 200 0 0 0) (Color32_rgba 100 0 0 0))) = 255
     \<and> unat (red (color_mul T (Color32_rgba 200 0 0 0) (Color32_rgba 100 0 0 0))) = 78"
proof -
  from GfxInit_tables_saturating[of static_Tables] obtain T where
    g: "GfxInit_tables static_Tables = Some T"
    and e: "\<forall>i\<le>255. \<forall>j\<le>255.
           unat (tableAdd T i j) = min 255 (i + j)
         \<and> int (unat (tableSub T i j)) = max 0 (int i - int j)
         \<and> unat (tableMul T i j) = i * j div 255"
    and c: "\<forall>ch\<in>{red, green, blue, alpha}. \<forall>pLeft pRight.
           unat (ch (color_add T pLeft pRight)) = min 255 (unat (ch pLeft) + unat (ch pRight))
         \<and> int (unat (ch (color_sub T pLeft pRight)))
             = max 0 (int (unat (ch pLeft)) - int (unat (ch pRight)))
         \<and> unat (ch (color_mul T pLeft pRight)) = unat (ch pLeft) * unat (ch pRight) div 255"
    by blast
  have e1: "unat (tableAdd T 200 100) = 255" "unat (tableMul T 200 100) = 78"
    using e[rule_format, of 200 100] by simp_all
  have e2: "int (unat (tableSub T 100 200)) = 0"
    using e[rule_format, of 100 200] by simp
  have r: "red \<in> {red, green, blue, alpha}" by simp
  have c1: "unat (red (color_add T (Color32_rgba 200 0 0 0) (Color32_rgba 100 0 0 0))) = 255"
    "unat (red (color_mul T (Color32_rgba 200 0 0 0) (Color32_rgba 100 0 0 0))) = 78"
    using c[rule_format, OF r, of "Color32_rgba 200 0 0 0" "Color32_rgba 100 0 0 0"]
    by (simp_all add: Color32_rgba_def)
  show ?thesis using g e1 e2 c1 by (intro exI[of _ T]) simp
qed

text \<open>
  C4. After the table construction of \<open>GfxInit\<close>, for every channel value \<open>i\<close> from 0
  to 255 the entry \<open>u8chan_to_fchan[i]\<close> is the binary32 quotient of 255 by \<open>i\<close>, the
  reciprocal of the ratio \<open>i / 255\<close>: the rounded value of \<open>255 / i\<close> for \<open>i > 0\<close>, and
  at \<open>i = 0\<close> a division by zero, which has no numeric value (binary32 gives the
  infinity).
\<close>

theorem u8chan_to_fchan_reciprocal:
  "\<exists>T. GfxInit_tables T0 = Some T
     \<and> (\<forall>i\<le>255. u8chan_to_fchan T i = fdiv (Fin 255) (Fin (of_nat i))
                \<and> u8chan_to_fchan T i = (if i = 0 then PInf else Fin (rnd (255 / of_nat i))))"
proof -
  obtain T where g: "GfxInit_tables T0 = Some T"
    and u: "u8chan_to_fchan T = fchan_loop (u8chan_to_fchan T0) 0"
    using GfxInit_tables_entries[of T0] by blast
  have "u8chan_to_fchan T i = fdiv (Fin 255) (Fin (of_nat i))
      \<and> u8chan_to_fchan T i = (if i = 0 then PInf else Fin (rnd (255 / of_nat i)))"
    if "i \<le> 255" for i
    unfolding u by (rule fchan_loop_reciprocal[OF that])
  then show ?thesis using g by blast
qed

text \<open>
  The entries at 0, 1 and 255: the quotient by zero, then 255 where the ratio is
  \<open>1 / 255\<close>, and 1.
\<close>

theorem u8chan_to_fchan_reciprocal_witness:
  "\<exists>T. GfxInit_tables static_Tables = Some T
     \<and> (0::nat) \<le> 255 \<and> (1::nat) \<le> 255 \<and> (255::nat) \<le> 255
     \<and> u8chan_to_fchan T 0 = fdiv (Fin 255) (Fin 0)
     \<and> u8chan_to_fchan T 0 = PInf
     \<and> u8chan_to_fchan T 1 = Fin 255
     \<and> u8chan_to_fchan T 255 = Fin 1"
proof -
  from u8chan_to_fchan_reciprocal[of static_Tables] obtain T where
    g: "GfxInit_tables static_Tables = Some T"
    and e: "\<forall>i\<le>255. u8chan_to_fchan T i = fdiv (Fin 255) (Fin (of_nat i))
                \<and> u8chan_to_fchan T i = (if i = 0 then PInf else Fin (rnd (255 / of_nat i)))"
    by blast
  have "u8chan_to_fchan T 0 = fdiv (Fin 255) (Fin 0)" "u8chan_to_fchan T 0 = PInf"
    using e[rule_format, of 0] by simp_all
  moreover have "u8chan_to_fchan T 1 = Fin 255"
    using e[rule_format, of 1, THEN conjunct2] rnd_of_nat[of 255] by simp
  moreover have "u8chan_to_fchan T 255 = Fin 1"
    using e[rule_format, of 255, THEN conjunct2] rnd_of_nat[of 1] by simp
  ultimately show ?thesis using g by (intro exI[of _ T]) simp
qed

end
